theory Spec2Isabelle
  imports Complex_Main "HOL-Library.Sublist" "HOL-Library.Multiset"
begin

section \<open>JavaScript numbers\<close>

text \<open>
  The valuation engine (\<^verbatim>\<open>src/lib/valuation/compute.ts\<close>) computes with the
  JavaScript type \<^verbatim>\<open>number\<close>: IEEE-754 binary64 with round-to-nearest,
  ties-to-even. A \<open>number\<close> is a finite value, one of the two infinities, or NaN.
  The two zeros are identified: the engine never divides by zero and never prints a
  zero's sign, so no result distinguishes them.

  Finite doubles are the reals \<open>m * 2 ^ q\<close> with \<open>\<bar>m\<bar> < 2 ^ 53\<close> and
  \<open>- 1074 \<le> q \<le> 971\<close>. \<open>quantum a\<close> is the exponent \<open>q\<close> of the grid
  on which a magnitude \<open>a\<close> lies (found by a bounded search from the subnormal
  exponent upwards), \<open>rhe\<close> rounds to the nearest integer with ties to even, and
  \<open>rnd\<close> is the rounding every arithmetic operation applies to its exact result:
  magnitudes from \<open>2 ^ 1024 - 2 ^ 970\<close> on overflow to an infinity.
\<close>

datatype number = Fin real | PInf | NInf | NaN

fun qexp :: "nat \<Rightarrow> int \<Rightarrow> real \<Rightarrow> int" where
  "qexp 0 e a = e"
| "qexp (Suc n) e a = (if a < 2 powi (e + 53) then e else qexp n (e + 1) a)"

definition quantum :: "real \<Rightarrow> int" where
  "quantum a = qexp 2045 (- 1074) a"

definition rhe :: "real \<Rightarrow> int" where
  "rhe x = (let f = \<lfloor>x\<rfloor>; d = x - of_int f in
     if d < 1 / 2 then f else if 1 / 2 < d then f + 1 else if even f then f else f + 1)"

definition overflow_threshold :: real where
  "overflow_threshold = 2 ^ 1024 - 2 ^ 970"

definition rnd :: "real \<Rightarrow> number" where
  "rnd x = (if overflow_threshold \<le> \<bar>x\<bar> then (if 0 < x then PInf else NInf)
            else (let q = quantum \<bar>x\<bar> in Fin (of_int (rhe (x / 2 powi q)) * 2 powi q)))"

text \<open>A real is a double when rounding leaves it alone.\<close>

definition is_double :: "real \<Rightarrow> bool" where
  "is_double r \<longleftrightarrow> rnd r = Fin r"

definition is_number :: "number \<Rightarrow> bool" where
  "is_number x = (case x of Fin r \<Rightarrow> is_double r | _ \<Rightarrow> True)"

fun js_neg :: "number \<Rightarrow> number" where
  "js_neg (Fin a) = Fin (- a)"
| "js_neg PInf = NInf"
| "js_neg NInf = PInf"
| "js_neg NaN = NaN"

fun js_abs :: "number \<Rightarrow> number" where
  "js_abs (Fin a) = Fin \<bar>a\<bar>"
| "js_abs PInf = PInf"
| "js_abs NInf = PInf"
| "js_abs NaN = NaN"

text \<open>\<^verbatim>\<open>x + y\<close>, \<^verbatim>\<open>x - y\<close>, \<^verbatim>\<open>x * y\<close>, \<^verbatim>\<open>x / y\<close>.\<close>

fun js_add :: "number \<Rightarrow> number \<Rightarrow> number" where
  "js_add (Fin a) (Fin b) = rnd (a + b)"
| "js_add NaN y = NaN"
| "js_add x NaN = NaN"
| "js_add PInf NInf = NaN"
| "js_add NInf PInf = NaN"
| "js_add PInf y = PInf"
| "js_add NInf y = NInf"
| "js_add (Fin a) PInf = PInf"
| "js_add (Fin a) NInf = NInf"

definition js_sub :: "number \<Rightarrow> number \<Rightarrow> number" where
  "js_sub x y = js_add x (js_neg y)"

fun is_negative :: "number \<Rightarrow> bool" where
  "is_negative (Fin a) \<longleftrightarrow> a < 0"
| "is_negative NInf \<longleftrightarrow> True"
| "is_negative PInf \<longleftrightarrow> False"
| "is_negative NaN \<longleftrightarrow> False"

fun js_mul :: "number \<Rightarrow> number \<Rightarrow> number" where
  "js_mul (Fin a) (Fin b) = rnd (a * b)"
| "js_mul NaN y = NaN"
| "js_mul x NaN = NaN"
| "js_mul x y =
     (if x = Fin 0 \<or> y = Fin 0 then NaN
      else if is_negative x = is_negative y then PInf else NInf)"

fun js_div :: "number \<Rightarrow> number \<Rightarrow> number" where
  "js_div (Fin a) (Fin b) =
     (if b = 0 then (if a = 0 then NaN else if 0 < a then PInf else NInf)
      else rnd (a / b))"
| "js_div NaN y = NaN"
| "js_div x NaN = NaN"
| "js_div (Fin a) y = Fin 0"
| "js_div x (Fin b) = (if is_negative x = (b < 0) then PInf else NInf)"
| "js_div x y = NaN"

text \<open>\<^verbatim>\<open>x < y\<close>, \<^verbatim>\<open>x <= y\<close>, \<^verbatim>\<open>x > y\<close>: every comparison with NaN is false.\<close>

fun js_lt :: "number \<Rightarrow> number \<Rightarrow> bool" where
  "js_lt (Fin a) (Fin b) \<longleftrightarrow> a < b"
| "js_lt (Fin a) PInf \<longleftrightarrow> True"
| "js_lt NInf (Fin b) \<longleftrightarrow> True"
| "js_lt NInf PInf \<longleftrightarrow> True"
| "js_lt x y \<longleftrightarrow> False"

definition js_le :: "number \<Rightarrow> number \<Rightarrow> bool" where
  "js_le x y \<longleftrightarrow> js_lt x y \<or> (x = y \<and> x \<noteq> NaN)"

definition js_gt :: "number \<Rightarrow> number \<Rightarrow> bool" where
  "js_gt x y \<longleftrightarrow> js_lt y x"

text \<open>\<^verbatim>\<open>Number.isFinite(x)\<close>, and the truthiness of a number (\<^verbatim>\<open>if (x)\<close>,
  \<^verbatim>\<open>!x\<close>, \<^verbatim>\<open>x || 0\<close>): zero and NaN are falsy.\<close>

fun isFinite :: "number \<Rightarrow> bool" where
  "isFinite (Fin a) \<longleftrightarrow> True"
| "isFinite x \<longleftrightarrow> False"

definition truthy :: "number \<Rightarrow> bool" where
  "truthy x \<longleftrightarrow> x \<noteq> NaN \<and> x \<noteq> Fin 0"

definition truthy_opt :: "number option \<Rightarrow> bool" where
  "truthy_opt v = (case v of None \<Rightarrow> False | Some x \<Rightarrow> truthy x)"

definition or0 :: "number \<Rightarrow> number" where
  "or0 w = (if truthy w then w else Fin 0)"

text \<open>\<^verbatim>\<open>Math.min(...xs)\<close> and \<^verbatim>\<open>Math.max(...xs)\<close>: NaN as soon as an argument is NaN.\<close>

definition math_min :: "number list \<Rightarrow> number" where
  "math_min xs =
     foldl (\<lambda>lowest x. if lowest = NaN \<or> x = NaN then NaN
                         else if js_lt x lowest then x else lowest) PInf xs"

definition math_max :: "number list \<Rightarrow> number" where
  "math_max xs =
     foldl (\<lambda>highest x. if highest = NaN \<or> x = NaN then NaN
                          else if js_lt highest x then x else highest) NInf xs"

text \<open>
  \<^verbatim>\<open>[...arr].sort(cmp)\<close>. ECMAScript fixes the outcome only for a consistent
  comparator: the sorted, stable arrangement, which insertion from the right computes.
  An element goes behind \<open>y\<close> when \<open>cmp x y\<close> is positive; a NaN from the
  comparator counts as zero.
\<close>

fun insert_by :: "(number \<Rightarrow> number \<Rightarrow> number) \<Rightarrow> number \<Rightarrow> number list \<Rightarrow> number list" where
  "insert_by cmp x [] = [x]"
| "insert_by cmp x (y # ys) =
     (if js_lt (Fin 0) (cmp x y) then y # insert_by cmp x ys else x # y # ys)"

definition array_sort :: "(number \<Rightarrow> number \<Rightarrow> number) \<Rightarrow> number list \<Rightarrow> number list" where
  "array_sort cmp xs = foldr (insert_by cmp) xs []"

section \<open>Strings\<close>

text \<open>
  Strings are byte lists; the Japanese literals of the source are given in UTF-8.
  Two library functions of the JavaScript runtime are parameters of the model:
  \<open>intl_format\<close>, the \<^verbatim>\<open>Intl.NumberFormat('ja-JP', ...)\<close> formatter that
  \<^verbatim>\<open>formatJPY\<close> applies to the magnitude, and \<open>number_to_string\<close>, the decimal
  text of a finite number that is not an integer of magnitude at most \<open>2 ^ 53\<close>
  (for those integers \<^verbatim>\<open>String(x)\<close> is the plain decimal numeral).
\<close>

record runtime =
  intl_format :: "number \<Rightarrow> string"
  number_to_string :: "real \<Rightarrow> string"

function digits :: "nat \<Rightarrow> string" where
  "digits n = (if n < 10 then [''0123456789'' ! n]
               else digits (n div 10) @ [''0123456789'' ! (n mod 10)])"
  by pat_completeness auto
termination
  by (relation "measure id") auto

definition int_str :: "int \<Rightarrow> string" where
  "int_str i = (if i < 0 then ''-'' @ digits (nat (- i)) else digits (nat i))"

text \<open>\<^verbatim>\<open>`${x}`\<close> for a number, and for a possibly undefined number.\<close>

definition numToString :: "runtime \<Rightarrow> number \<Rightarrow> string" where
  "numToString rt x =
     (case x of
        NaN \<Rightarrow> ''NaN''
      | PInf \<Rightarrow> ''Infinity''
      | NInf \<Rightarrow> ''-Infinity''
      | Fin r \<Rightarrow> if r = of_int \<lfloor>r\<rfloor> \<and> \<bar>r\<bar> \<le> 2 ^ 53 then int_str \<lfloor>r\<rfloor>
                 else number_to_string rt r)"

definition optToString :: "runtime \<Rightarrow> number option \<Rightarrow> string" where
  "optToString rt v = (case v of None \<Rightarrow> ''undefined'' | Some x \<Rightarrow> numToString rt x)"

text \<open>\<^verbatim>\<open>x.toFixed(0)\<close>: the nearest integer, the larger one on a tie, of the magnitude.\<close>

definition toFixed0 :: "runtime \<Rightarrow> number \<Rightarrow> string" where
  "toFixed0 rt x =
     (case x of
        Fin r \<Rightarrow> if 10 ^ 21 \<le> \<bar>r\<bar> then numToString rt x
                 else (if r < 0 then ''-'' else []) @ digits (nat \<lfloor>\<bar>r\<bar> + 1 / 2\<rfloor>)
      | _ \<Rightarrow> numToString rt x)"

text \<open>The yen sign and the infinity sign.\<close>

definition yen_sign :: string where
  "yen_sign = [CHR 0xC2, CHR 0xA5]"

definition infinity_sign :: string where
  "infinity_sign = [CHR 0xE2, CHR 0x88, CHR 0x9E]"

text \<open>"shareholder value became negative"\<close>

definition ja_negative_equity :: string where
  "ja_negative_equity = [CHR 0xE6, CHR 0xA0, CHR 0xAA, CHR 0xE4, CHR 0xB8, CHR 0xBB, CHR 0xE4, CHR 0xBE, CHR 0xA1, CHR 0xE5, CHR 0x80, CHR 0xA4, CHR 0xE3, CHR 0x81, CHR 0x8C, CHR 0xE8, CHR 0xB2, CHR 0xA0, CHR 0xE3, CHR 0x81, CHR 0xAB, CHR 0xE3, CHR 0x81, CHR 0xAA, CHR 0xE3, CHR 0x82, CHR 0x8A, CHR 0xE3, CHR 0x81, CHR 0xBE, CHR 0xE3, CHR 0x81, CHR 0x97, CHR 0xE3, CHR 0x81, CHR 0x9F]"

text \<open>"net debt"\<close>

definition ja_net_debt :: string where
  "ja_net_debt = [CHR 0xE3, CHR 0x83, CHR 0x8D, CHR 0xE3, CHR 0x83, CHR 0x83, CHR 0xE3, CHR 0x83, CHR 0x88, CHR 0xE8, CHR 0xB2, CHR 0xA0, CHR 0xE5, CHR 0x82, CHR 0xB5]"

text \<open>"[EV/EBITDA] method skipped" and "[EBITDA] value is invalid or negative"\<close>

definition ja_method_skip :: string where
  "ja_method_skip = [CHR 0xE6, CHR 0x89, CHR 0x8B, CHR 0xE6, CHR 0xB3, CHR 0x95, CHR 0xE3, CHR 0x82, CHR 0x92, CHR 0xE3, CHR 0x82, CHR 0xB9, CHR 0xE3, CHR 0x82, CHR 0xAD, CHR 0xE3, CHR 0x83, CHR 0x83, CHR 0xE3, CHR 0x83, CHR 0x97]"

definition ja_value_invalid :: string where
  "ja_value_invalid = [CHR 0xE5, CHR 0x80, CHR 0xA4, CHR 0xE3, CHR 0x81, CHR 0x8C, CHR 0xE7, CHR 0x84, CHR 0xA1, CHR 0xE5, CHR 0x8A, CHR 0xB9, CHR 0xE3, CHR 0x81, CHR 0xBE, CHR 0xE3, CHR 0x81, CHR 0x9F, CHR 0xE3, CHR 0x81, CHR 0xAF, CHR 0xE8, CHR 0xB2, CHR 0xA0, CHR 0xE3, CHR 0x81, CHR 0xAE, CHR 0xE5, CHR 0x80, CHR 0xA4]"

text \<open>"adjusted the weight of the [EV/Sales] method"\<close>

definition ja_weight_adjusted :: string where
  "ja_weight_adjusted = [CHR 0xE6, CHR 0x89, CHR 0x8B, CHR 0xE6, CHR 0xB3, CHR 0x95, CHR 0xE3, CHR 0x81, CHR 0xAE, CHR 0xE9, CHR 0x87, CHR 0x8D, CHR 0xE3, CHR 0x81, CHR 0xBF, CHR 0xE3, CHR 0x82, CHR 0x92, CHR 0xE8, CHR 0xAA, CHR 0xBF, CHR 0xE6, CHR 0x95, CHR 0xB4, CHR 0xE3, CHR 0x81, CHR 0x97, CHR 0xE3, CHR 0x81, CHR 0xBE, CHR 0xE3, CHR 0x81, CHR 0x97, CHR 0xE3, CHR 0x81, CHR 0x9F]"

text \<open>"no weights are set, so the average is used"\<close>

definition ja_no_weights :: string where
  "ja_no_weights = [CHR 0xE9, CHR 0x87, CHR 0x8D, CHR 0xE3, CHR 0x81, CHR 0xBF, CHR 0xE3, CHR 0x81, CHR 0x8C, CHR 0xE8, CHR 0xA8, CHR 0xAD, CHR 0xE5, CHR 0xAE, CHR 0x9A, CHR 0xE3, CHR 0x81, CHR 0x95, CHR 0xE3, CHR 0x82, CHR 0x8C, CHR 0xE3, CHR 0x81, CHR 0xA6, CHR 0xE3, CHR 0x81, CHR 0x84, CHR 0xE3, CHR 0x81, CHR 0xAA, CHR 0xE3, CHR 0x81, CHR 0x84, CHR 0xE3, CHR 0x81, CHR 0x9F, CHR 0xE3, CHR 0x82, CHR 0x81, CHR 0xE3, CHR 0x80, CHR 0x81, CHR 0xE5, CHR 0xB9, CHR 0xB3, CHR 0xE5, CHR 0x9D, CHR 0x87, CHR 0xE5, CHR 0x80, CHR 0xA4, CHR 0xE3, CHR 0x82, CHR 0x92, CHR 0xE4, CHR 0xBD, CHR 0xBF, CHR 0xE7, CHR 0x94, CHR 0xA8]"

text \<open>
  \<^verbatim>\<open>formatJPY(amount)\<close> of \<^verbatim>\<open>src/lib/formatters/currency.ts\<close> with its default
  options, the only way the engine calls it: no scaling, the yen sign, a minus for
  negative amounts.
\<close>

definition formatJPY :: "runtime \<Rightarrow> number \<Rightarrow> string" where
  "formatJPY rt amount =
     (if \<not> isFinite amount then
        (if amount = PInf then infinity_sign
         else if amount = NInf then ''-'' @ infinity_sign else ''N/A'')
      else
        (let displayAmount = amount;
             isNegative = js_lt displayAmount (Fin 0);
             absAmount = js_abs displayAmount;
             formattedNumber = intl_format rt absAmount
         in if isNegative then ''-'' @ yen_sign @ formattedNumber
            else yen_sign @ formattedNumber))"

section \<open>Data model\<close>

datatype Method = EV_Sales | EV_EBITDA | P_E

fun method_name :: "Method \<Rightarrow> string" where
  "method_name EV_Sales = ''EV/Sales''"
| "method_name EV_EBITDA = ''EV/EBITDA''"
| "method_name P_E = ''P/E''"

text \<open>
  \<^verbatim>\<open>Partial<Record<Method, number>>\<close> is a map from the three methods; \<open>None\<close> is a
  missing key (or, for \<open>evByMethod\<close>, a key bound to \<^verbatim>\<open>undefined\<close>, which every read
  in the engine treats alike). A key of \<open>weights\<close> is absent or bound to a number.
\<close>

record Inputs =
  sharesOutstanding :: number
  netDebtYen :: number
  evByMethod :: "Method \<Rightarrow> number option"
  pePrice :: "number option"
  weights :: "(Method \<Rightarrow> number option) option"
  companyName :: "string option"
  valuationDate :: "int option"

record Bridge =
  method_id :: Method
  EV :: number
  Equity :: number
  PricePerShare :: number
  used :: bool
  skipReason :: "string option"

text \<open>The fields \<^verbatim>\<open>median\<close> and \<^verbatim>\<open>range\<close> of the source's \<^verbatim>\<open>Summary\<close> are
  \<open>medianValue\<close> and \<open>priceRange\<close> here, and the field \<^verbatim>\<open>method\<close> of a
  \<^verbatim>\<open>Bridge\<close> is \<open>method_id\<close>.\<close>

record Summary =
  avg :: number
  medianValue :: number
  weighted :: number
  priceRange :: "number \<times> number"
  validMethodCount :: nat
  usedMethods :: "Method list"

record ValuationResult =
  bridges :: "Bridge list"
  summary :: Summary
  inputs :: Inputs
  warnings :: "string list"
  errors :: "string list"
  success :: bool

record Scenario =
  scenario :: string
  scenario_inputs :: Inputs

text \<open>The literals \<^verbatim>\<open>0.4\<close>, \<^verbatim>\<open>0.4\<close>, \<^verbatim>\<open>0.2\<close> denote the nearest doubles.\<close>

fun DEFAULT_WEIGHTS :: "Method \<Rightarrow> number" where
  "DEFAULT_WEIGHTS EV_Sales = rnd (4 / 10)"
| "DEFAULT_WEIGHTS EV_EBITDA = rnd (4 / 10)"
| "DEFAULT_WEIGHTS P_E = rnd (2 / 10)"

section \<open>The valuation engine\<close>

definition median :: "number list \<Rightarrow> number" where
  "median arr =
     (if length arr = 0 then NaN
      else
        (let sorted = array_sort (\<lambda>a b. js_sub a b) arr;
             mid = length sorted div 2
         in if length sorted mod 2 \<noteq> 0 then sorted ! mid
            else js_div (js_add (sorted ! (mid - 1)) (sorted ! mid)) (Fin 2)))"

text \<open>\<^verbatim>\<open>validateInputs\<close>: four independent rules, each appending to \<open>errors\<close>.\<close>

definition validateInputs :: "runtime \<Rightarrow> Inputs \<Rightarrow> bool \<times> string list" where
  "validateInputs rt i =
     (let errors1 =
            (if \<not> isFinite (sharesOutstanding i) \<or> js_le (sharesOutstanding i) (Fin 0)
             then [''Invalid shares outstanding: '' @ numToString rt (sharesOutstanding i)]
             else []);
          errors2 =
            (if \<not> isFinite (netDebtYen i)
             then [''Invalid net debt: '' @ numToString rt (netDebtYen i)]
             else []);
          evMethods = filter (\<lambda>m. evByMethod i m \<noteq> None) [EV_Sales, EV_EBITDA, P_E];
          validEvMethods =
            filter (\<lambda>m. case evByMethod i m of
                           None \<Rightarrow> False
                         | Some ev \<Rightarrow> isFinite ev \<and> js_gt ev (Fin 0)) evMethods;
          errors3 =
            (if length validEvMethods = 0 \<and> \<not> truthy_opt (pePrice i)
             then [''No valid valuation methods provided'']
             else []);
          errors4 =
            (case pePrice i of
               None \<Rightarrow> []
             | Some p \<Rightarrow>
                 if \<not> isFinite p \<or> js_le p (Fin 0)
                 then [''Invalid P/E price: '' @ numToString rt p]
                 else []);
          errors = errors1 @ errors2 @ errors3 @ errors4
      in (length errors = 0, errors))"

text \<open>
  The warning texts: the template of \<^verbatim>\<open>addBridge\<close> for a negative equity value
  (method, formatted EV, formatted net debt) and the two literals of the EV/EBITDA
  special case.
\<close>

definition negativeEquityWarning :: "runtime \<Rightarrow> Inputs \<Rightarrow> Method \<Rightarrow> number \<Rightarrow> string" where
  "negativeEquityWarning rt i m ev =
     method_name m @ '': '' @ ja_negative_equity @ '' (EV: '' @ formatJPY rt ev @ '', ''
     @ ja_net_debt @ '': '' @ formatJPY rt (netDebtYen i) @ '')''"

definition ebitdaSkipWarning :: string where
  "ebitdaSkipWarning = ''EV/EBITDA'' @ ja_method_skip @ '': EBITDA'' @ ja_value_invalid"

definition reweightWarning :: string where
  "reweightWarning = ''EV/Sales'' @ ja_weight_adjusted"

text \<open>The row pushed for EV/EBITDA by the special case, and its guard
  \<^verbatim>\<open>evEbitda !== undefined && evEbitda > 0\<close>.\<close>

definition ebitdaSkipped :: Bridge where
  "ebitdaSkipped =
     \<lparr>method_id = EV_EBITDA, EV = NaN, Equity = NaN, PricePerShare = NaN, used = False,
      skipReason = Some ''EBITDA <= 0 or invalid EV''\<rparr>"

definition positive_opt :: "number option \<Rightarrow> bool" where
  "positive_opt v = (case v of None \<Rightarrow> False | Some x \<Rightarrow> js_gt x (Fin 0))"

text \<open>
  The closure \<^verbatim>\<open>addBridge(method, ev, directPrice)\<close> appends to the bridges and
  warnings of the running call; here it takes and returns both lists.
\<close>

definition addBridge ::
  "runtime \<Rightarrow> Inputs \<Rightarrow> Method \<Rightarrow> number option \<Rightarrow> number option
   \<Rightarrow> Bridge list \<times> string list \<Rightarrow> Bridge list \<times> string list" where
  "addBridge rt i m ev directPrice st =
     (let (bs, ws) = st;
          noPrice = \<lparr>method_id = m, EV = NaN, Equity = NaN, PricePerShare = NaN, used = False,
                     skipReason = Some ''No valid P/E price provided''\<rparr>;
          invalidEV = \<lparr>method_id = m, EV = NaN, Equity = NaN, PricePerShare = NaN, used = False,
                       skipReason = Some (''Invalid EV: '' @ optToString rt ev)\<rparr>
      in
      if m = P_E then
        (case directPrice of
           None \<Rightarrow> (bs @ [noPrice], ws)
         | Some p \<Rightarrow>
             if \<not> isFinite p \<or> js_le p (Fin 0) then (bs @ [noPrice], ws)
             else (bs @ [\<lparr>method_id = m, EV = NaN,
                           Equity = js_mul p (sharesOutstanding i),
                           PricePerShare = p, used = True, skipReason = None\<rparr>], ws))
      else
        (case ev of
           None \<Rightarrow> (bs @ [invalidEV], ws)
         | Some v \<Rightarrow>
             if \<not> isFinite v \<or> js_le v (Fin 0) then (bs @ [invalidEV], ws)
             else
               (let equity = js_sub v (netDebtYen i) in
                if js_le equity (Fin 0) then
                  (bs @ [\<lparr>method_id = m, EV = v, Equity = equity, PricePerShare = Fin 0,
                          used = False,
                          skipReason =
                            Some (''Negative equity value: '' @ formatJPY rt equity)\<rparr>],
                   ws @ [negativeEquityWarning rt i m v])
                else
                  (let pricePerShare = js_div equity (sharesOutstanding i)
                   in (bs @ [\<lparr>method_id = m, EV = v, Equity = equity,
                               PricePerShare = pricePerShare, used = True,
                               skipReason = None\<rparr>], ws)))))"

text \<open>\<^verbatim>\<open>{ ...DEFAULT_WEIGHTS, ...inputs.weights }\<close>\<close>

definition mergeWeights :: "Inputs \<Rightarrow> Method \<Rightarrow> number" where
  "mergeWeights i m =
     (case weights i of
        None \<Rightarrow> DEFAULT_WEIGHTS m
      | Some ws \<Rightarrow> (case ws m of None \<Rightarrow> DEFAULT_WEIGHTS m | Some w \<Rightarrow> w))"

text \<open>
  The bridge phase of \<^verbatim>\<open>computeValuation\<close> (from the weight table to the call for
  P/E): the bridges, the warnings and the weight table as they stand before the summary.
\<close>

definition buildBridges ::
  "runtime \<Rightarrow> Inputs \<Rightarrow> Bridge list \<times> string list \<times> (Method \<Rightarrow> number)" where
  "buildBridges rt i =
     (let weights0 = mergeWeights i;
          st1 = addBridge rt i EV_Sales (evByMethod i EV_Sales) None ([], []);
          evEbitda = evByMethod i EV_EBITDA;
          (st2, weights2) =
            (if positive_opt evEbitda
             then (addBridge rt i EV_EBITDA evEbitda None st1, weights0)
             else
               (let (bs, ws) = st1;
                    bs' = bs @ [ebitdaSkipped]
                in if evEbitda \<noteq> None then
                     (let ws' = ws @ [ebitdaSkipWarning];
                          evSalesUsed =
                            (case find (\<lambda>b. method_id b = EV_Sales) bs' of
                               None \<Rightarrow> False
                             | Some b \<Rightarrow> used b)
                      in if evSalesUsed then
                           ((bs', ws' @ [reweightWarning]),
                            weights0(EV_Sales := js_add (weights0 EV_Sales) (weights0 EV_EBITDA),
                                     EV_EBITDA := Fin 0))
                         else ((bs', ws'), weights0))
                   else ((bs', ws), weights0)));
          (bs3, ws3) = addBridge rt i P_E None (pePrice i) st2
      in (bs3, ws3, weights2))"

text \<open>The summary phase: statistics over the used bridges, in method order.\<close>

definition summarise ::
  "Bridge list \<Rightarrow> string list \<Rightarrow> (Method \<Rightarrow> number) \<Rightarrow> Summary \<times> string list" where
  "summarise bs ws wt =
     (let validBridges = filter used bs;
          prices = map PricePerShare validBridges;
          methods = map method_id validBridges;
          avg = (if length prices > 0
                 then js_div (foldl (\<lambda>sum price. js_add sum price) (Fin 0) prices)
                        (Fin (real (length prices)))
                 else NaN);
          medianValue = (if length prices > 0 then median prices else NaN);
          (weighted, ws') =
            (if length prices > 0 then
               (let totalWeight =
                      foldl (\<lambda>sum b. js_add sum (or0 (wt (method_id b)))) (Fin 0) validBridges
                in if js_gt totalWeight (Fin 0) then
                     (foldl (\<lambda>sum b.
                               (let weight = js_div (or0 (wt (method_id b))) totalWeight
                                in js_add sum (js_mul (PricePerShare b) weight)))
                        (Fin 0) validBridges, ws)
                   else (avg, ws @ [ja_no_weights]))
             else (NaN, ws));
          range = (if length prices > 0 then (math_min prices, math_max prices)
                   else (NaN, NaN))
      in (\<lparr>avg = avg, medianValue = medianValue, weighted = weighted, priceRange = range,
            validMethodCount = length validBridges, usedMethods = methods\<rparr>, ws'))"

definition computeValuation :: "runtime \<Rightarrow> Inputs \<Rightarrow> ValuationResult" where
  "computeValuation rt i =
     (let (valid, errs) = validateInputs rt i in
      if \<not> valid then
        \<lparr>bridges = [],
         summary = \<lparr>avg = NaN, medianValue = NaN, weighted = NaN, priceRange = (NaN, NaN),
                    validMethodCount = 0, usedMethods = []\<rparr>,
         inputs = i, warnings = [], errors = errs, success = False\<rparr>
      else
        (let (bs, ws, wt) = buildBridges rt i;
             (s, ws') = summarise bs ws wt
         in \<lparr>bridges = bs, summary = s, inputs = i, warnings = ws', errors = [],
              success = (length (filter used bs) > 0)\<rparr>))"

text \<open>
  \<^verbatim>\<open>generateSensitivityScenarios(baseInputs, netDebtVariation = 0.1,
  multipleVariation = 0.1)\<close>; an omitted argument is \<open>None\<close>. The function pushes,
  in this order: the base case, the two net-debt scenarios, for each of EV/Sales and
  EV/EBITDA the body of the \<^verbatim>\<open>forEach\<close> (guarded by \<^verbatim>\<open>if (baseEV)\<close>), and the
  two P/E scenarios (guarded by \<^verbatim>\<open>if (baseInputs.pePrice)\<close>).
\<close>

definition methodScenarios :: "runtime \<Rightarrow> Inputs \<Rightarrow> number \<Rightarrow> Method \<Rightarrow> Scenario list" where
  "methodScenarios rt baseInputs multipleVariation m =
     (case evByMethod baseInputs m of
        None \<Rightarrow> []
      | Some baseEV \<Rightarrow>
          if truthy baseEV then
            [\<lparr>scenario = method_name m @ '' +''
                 @ toFixed0 rt (js_mul multipleVariation (Fin 100)) @ ''%'',
              scenario_inputs = baseInputs\<lparr>evByMethod := (evByMethod baseInputs)
                 (m := Some (js_mul baseEV (js_add (Fin 1) multipleVariation)))\<rparr>\<rparr>,
             \<lparr>scenario = method_name m @ '' -''
                 @ toFixed0 rt (js_mul multipleVariation (Fin 100)) @ ''%'',
              scenario_inputs = baseInputs\<lparr>evByMethod := (evByMethod baseInputs)
                 (m := Some (js_mul baseEV (js_sub (Fin 1) multipleVariation)))\<rparr>\<rparr>]
          else [])"

definition peScenarios :: "runtime \<Rightarrow> Inputs \<Rightarrow> number \<Rightarrow> Scenario list" where
  "peScenarios rt baseInputs multipleVariation =
     (case pePrice baseInputs of
        None \<Rightarrow> []
      | Some p \<Rightarrow>
          if truthy p then
            [\<lparr>scenario = ''P/E +''
                 @ toFixed0 rt (js_mul multipleVariation (Fin 100)) @ ''%'',
              scenario_inputs =
                baseInputs\<lparr>pePrice := Some (js_mul p (js_add (Fin 1) multipleVariation))\<rparr>\<rparr>,
             \<lparr>scenario = ''P/E -''
                 @ toFixed0 rt (js_mul multipleVariation (Fin 100)) @ ''%'',
              scenario_inputs =
                baseInputs\<lparr>pePrice := Some (js_mul p (js_sub (Fin 1) multipleVariation))\<rparr>\<rparr>]
          else [])"

definition netDebtScenarios :: "runtime \<Rightarrow> Inputs \<Rightarrow> number \<Rightarrow> Scenario list" where
  "netDebtScenarios rt baseInputs netDebtVariation =
     (let netDebtBase = netDebtYen baseInputs
      in [\<lparr>scenario = ja_net_debt @ '' +''
             @ toFixed0 rt (js_mul netDebtVariation (Fin 100)) @ ''%'',
           scenario_inputs =
             baseInputs\<lparr>netDebtYen := js_mul netDebtBase (js_add (Fin 1) netDebtVariation)\<rparr>\<rparr>,
          \<lparr>scenario = ja_net_debt @ '' -''
             @ toFixed0 rt (js_mul netDebtVariation (Fin 100)) @ ''%'',
           scenario_inputs =
             baseInputs\<lparr>netDebtYen := js_mul netDebtBase (js_sub (Fin 1) netDebtVariation)\<rparr>\<rparr>])"

definition generateSensitivityScenarios ::
  "runtime \<Rightarrow> Inputs \<Rightarrow> number option \<Rightarrow> number option \<Rightarrow> Scenario list" where
  "generateSensitivityScenarios rt baseInputs netDebtVariation' multipleVariation' =
     (let netDebtVariation = (case netDebtVariation' of None \<Rightarrow> rnd (1 / 10) | Some v \<Rightarrow> v);
          multipleVariation = (case multipleVariation' of None \<Rightarrow> rnd (1 / 10) | Some v \<Rightarrow> v)
      in [\<lparr>scenario = ''Base Case'', scenario_inputs = baseInputs\<rparr>]
         @ netDebtScenarios rt baseInputs netDebtVariation
         @ concat (map (methodScenarios rt baseInputs multipleVariation) [EV_Sales, EV_EBITDA])
         @ peScenarios rt baseInputs multipleVariation)"

text \<open>Some entry of \<open>evByMethod\<close> is finite and positive (the validator's
  \<^verbatim>\<open>validEvMethods.length > 0\<close>).\<close>

definition hasValidEv :: "Inputs \<Rightarrow> bool" where
  "hasValidEv i =
     list_ex (\<lambda>m. case evByMethod i m of
                     None \<Rightarrow> False
                   | Some ev \<Rightarrow> isFinite ev \<and> js_gt ev (Fin 0)) [EV_Sales, EV_EBITDA, P_E]"

text \<open>
  \<open>Fin\<close> carries any real, a JavaScript value only a double: \<open>wellformed\<close> holds
  of the records whose numbers are doubles. A number is \<open>comparable\<close> when it is
  such a value and not NaN; on these the comparator \<^verbatim>\<open>(a, b) => a - b\<close> is consistent.
\<close>

definition comparable :: "number \<Rightarrow> bool" where
  "comparable x \<longleftrightarrow> x \<noteq> NaN \<and> is_number x"

definition is_number_opt :: "number option \<Rightarrow> bool" where
  "is_number_opt v = (case v of None \<Rightarrow> True | Some x \<Rightarrow> is_number x)"

definition wellformed :: "Inputs \<Rightarrow> bool" where
  "wellformed i \<longleftrightarrow>
     is_number (sharesOutstanding i) \<and> is_number (netDebtYen i)
     \<and> list_all (\<lambda>m. is_number_opt (evByMethod i m)) [EV_Sales, EV_EBITDA, P_E]
     \<and> is_number_opt (pePrice i)
     \<and> (case weights i of
           None \<Rightarrow> True
         | Some ws \<Rightarrow> list_all (\<lambda>m. is_number_opt (ws m)) [EV_Sales, EV_EBITDA, P_E])"

text \<open>A value lies within the closed interval given by a pair.\<close>

definition in_range :: "number \<times> number \<Rightarrow> number \<Rightarrow> bool" where
  "in_range r x \<longleftrightarrow> js_le (fst r) x \<and> js_le x (snd r)"

text \<open>A comparable number that is not negative.\<close>

definition price_ok :: "number \<Rightarrow> bool" where
  "price_ok p \<longleftrightarrow> comparable p \<and> js_le (Fin 0) p"

section \<open>Fixtures\<close>

text \<open>
  A runtime whose two formatters return the empty text, for statements in which the
  formatted texts play no role, and input records: those of the test suite
  (\<^verbatim>\<open>tests/valuation/compute.test.ts\<close>, the numbers only, without company name
  and date) and a few more.
\<close>

definition stub_runtime :: runtime where
  "stub_runtime = \<lparr>intl_format = (\<lambda>x. []), number_to_string = (\<lambda>r. [])\<rparr>"

definition standardInputs :: Inputs where
  "standardInputs =
     \<lparr>sharesOutstanding = Fin 1000000, netDebtYen = Fin 3790000000,
      evByMethod = (\<lambda>m. case m of EV_Sales \<Rightarrow> Some (Fin 5062000000)
                               | EV_EBITDA \<Rightarrow> Some (Fin 4860000000) | P_E \<Rightarrow> None),
      pePrice = Some (Fin 1234), weights = None,
      companyName = None, valuationDate = None\<rparr>"

definition invalidInputs :: Inputs where
  "invalidInputs =
     \<lparr>sharesOutstanding = Fin (- 1000), netDebtYen = NaN,
      evByMethod = (\<lambda>m. None), pePrice = None, weights = None,
      companyName = None, valuationDate = None\<rparr>"

text \<open>Not from the test suite: no EV figure and a P/E price of zero.\<close>

definition zeroPriceInputs :: Inputs where
  "zeroPriceInputs =
     \<lparr>sharesOutstanding = Fin 1000000, netDebtYen = Fin 0,
      evByMethod = (\<lambda>m. None), pePrice = Some (Fin 0), weights = None,
      companyName = None, valuationDate = None\<rparr>"

definition negativeEbitdaInputs :: Inputs where
  "negativeEbitdaInputs =
     standardInputs\<lparr>evByMethod := (\<lambda>m. case m of EV_Sales \<Rightarrow> Some (Fin 5000000000)
                               | EV_EBITDA \<Rightarrow> Some (Fin (- 1000000000)) | P_E \<Rightarrow> None)\<rparr>"

definition highDebtInputs :: Inputs where
  "highDebtInputs =
     standardInputs\<lparr>netDebtYen := Fin 10000000000,
       evByMethod := (\<lambda>m. case m of EV_Sales \<Rightarrow> Some (Fin 5000000000) | _ \<Rightarrow> None)\<rparr>"

definition limitedInputs :: Inputs where
  "limitedInputs =
     \<lparr>sharesOutstanding = Fin 1000000, netDebtYen = Fin 1000000000,
      evByMethod = (\<lambda>m. case m of EV_Sales \<Rightarrow> Some (Fin 3000000000) | _ \<Rightarrow> None),
      pePrice = None, weights = None, companyName = None, valuationDate = None\<rparr>"

text \<open>Not from the test suite: an EV/EBITDA figure of +Infinity, of NaN and of
  -Infinity, and an EV/Sales figure of zero.\<close>

definition infiniteEbitdaInputs :: Inputs where
  "infiniteEbitdaInputs =
     standardInputs\<lparr>evByMethod := (\<lambda>m. case m of EV_Sales \<Rightarrow> Some (Fin 5062000000)
                               | EV_EBITDA \<Rightarrow> Some PInf | P_E \<Rightarrow> None)\<rparr>"

definition nanEbitdaInputs :: Inputs where
  "nanEbitdaInputs =
     standardInputs\<lparr>evByMethod := (\<lambda>m. case m of EV_Sales \<Rightarrow> Some (Fin 5062000000)
                               | EV_EBITDA \<Rightarrow> Some NaN | P_E \<Rightarrow> None)\<rparr>"

definition negInfEbitdaInputs :: Inputs where
  "negInfEbitdaInputs =
     standardInputs\<lparr>evByMethod := (\<lambda>m. case m of EV_Sales \<Rightarrow> Some (Fin 5062000000)
                               | EV_EBITDA \<Rightarrow> Some NInf | P_E \<Rightarrow> None)\<rparr>"

definition zeroSalesInputs :: Inputs where
  "zeroSalesInputs =
     limitedInputs\<lparr>evByMethod := (\<lambda>m. case m of EV_Sales \<Rightarrow> Some (Fin 0) | _ \<Rightarrow> None)\<rparr>"

text \<open>Inputs at the edge of the double range: an EV and a net cash position of
  \<open>2 ^ 1023\<close> each, one share.\<close>

definition overflowInputs :: Inputs where
  "overflowInputs =
     \<lparr>sharesOutstanding = Fin 1, netDebtYen = Fin (- (2 ^ 1023)),
      evByMethod = (\<lambda>m. case m of EV_Sales \<Rightarrow> Some (Fin (2 ^ 1023)) | _ \<Rightarrow> None),
      pePrice = None, weights = None, companyName = None, valuationDate = None\<rparr>"

text \<open>Two methods with the same price of 7 under the default weights.\<close>

definition equalPricesInputs :: Inputs where
  "equalPricesInputs =
     \<lparr>sharesOutstanding = Fin 1, netDebtYen = Fin 0,
      evByMethod = (\<lambda>m. case m of EV_Sales \<Rightarrow> Some (Fin 7) | _ \<Rightarrow> None),
      pePrice = Some (Fin 7), weights = None, companyName = None, valuationDate = None\<rparr>"

text \<open>Two methods with the same price of \<open>2 ^ 1023\<close>.\<close>

definition hugePricesInputs :: Inputs where
  "hugePricesInputs =
     \<lparr>sharesOutstanding = Fin 1, netDebtYen = Fin 0,
      evByMethod = (\<lambda>m. case m of EV_Sales \<Rightarrow> Some (Fin (2 ^ 1023)) | _ \<Rightarrow> None),
      pePrice = Some (Fin (2 ^ 1023)), weights = None, companyName = None, valuationDate = None\<rparr>"

section \<open>Properties of rounding\<close>

lemma qexp_eq:
  "e0 \<le> e \<Longrightarrow> e \<le> e0 + int n \<Longrightarrow> a < 2 powi (e + 53) \<Longrightarrow> (e = e0 \<or> 2 powi (e + 52) \<le> a)
   \<Longrightarrow> qexp n e0 a = e"
proof (induction n arbitrary: e0)
  case 0
  then show ?case by simp
next
  case (Suc n)
  show ?case
  proof (cases "e = e0")
    case True
    with Suc.prems show ?thesis by simp
  next
    case False
    with Suc.prems have lt: "e0 < e" and ge: "2 powi (e + 52) \<le> a" by auto
    have "(2::real) powi (e0 + 53) \<le> 2 powi (e + 52)"
      using lt by (intro power_int_increasing) auto
    with ge have "\<not> a < 2 powi (e0 + 53)" by linarith
    moreover have "qexp n (e0 + 1) a = e"
      using Suc.prems lt ge by (intro Suc.IH) auto
    ultimately show ?thesis by simp
  qed
qed

lemma qexp_bounds:
  "e0 \<le> qexp n e0 a \<and> qexp n e0 a \<le> e0 + int n"
proof (induction n arbitrary: e0)
  case 0
  then show ?case by simp
next
  case (Suc n)
  from Suc.IH[of "e0 + 1"] show ?case by auto
qed

lemma qexp_lower:
  "qexp n e0 a = e0 \<or> 2 powi (qexp n e0 a + 52) \<le> a"
proof (induction n arbitrary: e0)
  case 0
  then show ?case by simp
next
  case (Suc n)
  show ?case
  proof (cases "a < 2 powi (e0 + 53)")
    case True
    then show ?thesis by simp
  next
    case False
    from Suc.IH[of "e0 + 1"] show ?thesis
    proof
      assume "qexp n (e0 + 1) a = e0 + 1"
      with False show ?thesis by (simp add: add.commute add.left_commute)
    next
      assume "2 powi (qexp n (e0 + 1) a + 52) \<le> a"
      with False show ?thesis by simp
    qed
  qed
qed

lemma qexp_upper:
  "qexp n e0 a < e0 + int n \<Longrightarrow> a < 2 powi (qexp n e0 a + 53)"
proof (induction n arbitrary: e0)
  case 0
  then show ?case by simp
next
  case (Suc n)
  show ?case
  proof (cases "a < 2 powi (e0 + 53)")
    case True
    then show ?thesis by simp
  next
    case False
    with Suc.prems have "qexp n (e0 + 1) a < (e0 + 1) + int n" by simp
    from Suc.IH[OF this] False show ?thesis by simp
  qed
qed

lemma quantum_range: "- 1074 \<le> quantum a \<and> quantum a \<le> 971"
  using qexp_bounds[of "- 1074" 2045 a] by (simp add: quantum_def)

lemma quantum_lower: "quantum a = - 1074 \<or> 2 powi (quantum a + 52) \<le> a"
  using qexp_lower[of 2045 "- 1074" a] by (simp add: quantum_def)

lemma quantum_upper:
  assumes "a < 2 ^ 1024"
  shows "a < 2 powi (quantum a + 53)"
proof (cases "quantum a < 971")
  case True
  then show ?thesis
    using qexp_upper[of 2045 "- 1074" a] by (simp add: quantum_def)
next
  case False
  with quantum_range[of a] have "quantum a = 971" by linarith
  with assms show ?thesis by simp
qed

lemma quantum_eq:
  "- 1074 \<le> e \<Longrightarrow> e \<le> 971 \<Longrightarrow> a < 2 powi (e + 53) \<Longrightarrow> (e = - 1074 \<or> 2 powi (e + 52) \<le> a)
   \<Longrightarrow> quantum a = e"
  unfolding quantum_def by (rule qexp_eq) auto

lemma rhe_of_int [simp]: "rhe (of_int m) = m"
  by (simp add: rhe_def)

lemma rhe_ge: "of_int m \<le> x \<Longrightarrow> m \<le> rhe x"
proof -
  assume "of_int m \<le> x"
  then have "m \<le> \<lfloor>x\<rfloor>" by (simp add: le_floor_iff)
  then show ?thesis unfolding rhe_def Let_def by auto
qed

lemma rhe_le: "x \<le> of_int m \<Longrightarrow> rhe x \<le> m"
proof -
  assume a: "x \<le> of_int m"
  show ?thesis
  proof (cases "x = of_int m")
    case True then show ?thesis by simp
  next
    case False
    with a have "x < of_int m" by simp
    then have "\<lfloor>x\<rfloor> < m" by (simp add: floor_less_iff)
    then show ?thesis unfolding rhe_def Let_def by auto
  qed
qed

lemma floor_minus_nonint:
  fixes x :: real
  assumes "x \<noteq> of_int \<lfloor>x\<rfloor>"
  shows "\<lfloor>- x\<rfloor> = - \<lfloor>x\<rfloor> - 1"
proof (rule floor_unique)
  have "of_int \<lfloor>x\<rfloor> \<le> x" by (rule of_int_floor_le)
  with assms have "of_int \<lfloor>x\<rfloor> < x" by (metis order_less_le)
  moreover have "x < of_int \<lfloor>x\<rfloor> + 1" by linarith
  ultimately show "of_int (- \<lfloor>x\<rfloor> - 1) \<le> - x" "- x < of_int (- \<lfloor>x\<rfloor> - 1) + 1"
    by (simp; linarith)+
qed

lemma rhe_minus: "rhe (- x) = - rhe x"
proof (cases "x = of_int \<lfloor>x\<rfloor>")
  case True
  then have "rhe x = \<lfloor>x\<rfloor>" by (metis rhe_of_int)
  moreover have "- x = of_int (- \<lfloor>x\<rfloor>)" using True by simp
  then have "rhe (- x) = - \<lfloor>x\<rfloor>" by (metis rhe_of_int)
  ultimately show ?thesis by simp
next
  case False
  note fl = floor_minus_nonint[OF False]
  have "of_int \<lfloor>x\<rfloor> \<le> x" by (rule of_int_floor_le)
  with False have "of_int \<lfloor>x\<rfloor> < x" by (metis order_less_le)
  then show ?thesis
    unfolding rhe_def Let_def fl by (simp; linarith?)
qed

lemma rhe_le_half: "x < of_int m + 1 / 2 \<Longrightarrow> rhe x \<le> m"
proof -
  assume a: "x < of_int m + 1 / 2"
  then have "x < of_int (m + 1)" by simp
  then have "\<lfloor>x\<rfloor> < m + 1" by (simp only: floor_less_iff)
  then have f: "\<lfloor>x\<rfloor> \<le> m" by simp
  show ?thesis
  proof (cases "\<lfloor>x\<rfloor> = m")
    case True
    with a have "x - of_int \<lfloor>x\<rfloor> < 1 / 2" by simp
    then show ?thesis unfolding rhe_def Let_def using True by simp
  next
    case False
    with f have "\<lfloor>x\<rfloor> + 1 \<le> m" by simp
    then show ?thesis unfolding rhe_def Let_def by auto
  qed
qed

lemma rhe_ge_half: "of_int m - 1 / 2 < x \<Longrightarrow> m \<le> rhe x"
proof -
  assume "of_int m - 1 / 2 < x"
  then have "- x < of_int (- m) + 1 / 2" by simp
  then have "rhe (- x) \<le> - m" by (rule rhe_le_half)
  then show ?thesis by (simp add: rhe_minus)
qed

lemma overflow_threshold_less: "overflow_threshold < 2 ^ 1024"
  by (simp add: overflow_threshold_def)

lemma overflow_threshold_pos: "0 < overflow_threshold"
  by (simp add: overflow_threshold_def)

lemma rnd_minus: "rnd (- x) = js_neg (rnd x)"
  using overflow_threshold_pos by (simp add: rnd_def Let_def rhe_minus)

lemma rnd_eval:
  assumes "- 1074 \<le> e" "e \<le> 971" "\<bar>x\<bar> < 2 powi (e + 53)"
    and "e = - 1074 \<or> 2 powi (e + 52) \<le> \<bar>x\<bar>" "\<bar>x\<bar> < overflow_threshold"
  shows "rnd x = Fin (of_int (rhe (x / 2 powi e)) * 2 powi e)"
proof -
  have "quantum \<bar>x\<bar> = e" using assms(1-4) by (rule quantum_eq)
  with assms(5) show ?thesis by (simp add: rnd_def)
qed

lemma powi_diff_nat: "(of_int m * 2 powi (q + int d)) / 2 powi q = (of_int m * 2 ^ d :: real)"
  by (simp add: power_int_add)

lemma of_int_abs_le_53: "\<bar>m\<bar> \<le> 2 ^ 53 \<Longrightarrow> (of_int \<bar>m\<bar> :: real) \<le> 2 ^ 53"
  by (metis of_int_le_iff of_int_numeral of_int_power)

lemma powi_53: "(2::real) ^ 53 * 2 powi e = 2 powi (e + 53)"
  by (simp add: power_int_add)

lemma abs_div_powi_52: "\<bar>x\<bar> = 2 powi (q + 52) \<Longrightarrow> \<bar>x / 2 powi q\<bar> = (2::real) ^ 52"
  by (simp add: power_int_add abs_mult)

lemma abs_eq_cases: "\<bar>y\<bar> = (c::real) \<Longrightarrow> y = c \<or> y = - c"
  by (auto simp: abs_if split: if_splits)

lemma rnd_exact:
  assumes e: "- 1074 \<le> e" "e \<le> 971" and m: "\<bar>m\<bar> \<le> 2 ^ 53"
    and thr: "\<bar>of_int m * 2 powi e\<bar> < overflow_threshold"
  shows "rnd (of_int m * 2 powi e) = Fin (of_int m * 2 powi e)"
proof -
  define x :: real where "x = of_int m * 2 powi e"
  define q where "q = quantum \<bar>x\<bar>"
  have qr: "- 1074 \<le> q" "q \<le> 971" using quantum_range[of "\<bar>x\<bar>"] by (simp_all add: q_def)
  have ax: "\<bar>x\<bar> = of_int \<bar>m\<bar> * 2 powi e" by (simp add: x_def abs_mult)
  have "\<exists>k::int. x / 2 powi q = of_int k"
  proof (cases "q \<le> e")
    case True
    then obtain d where d: "e = q + int d" by (metis zle_iff_zadd)
    have "x / 2 powi q = of_int m * 2 ^ d"
      unfolding x_def d by (rule powi_diff_nat)
    also have "\<dots> = of_int (m * 2 ^ d)" by simp
    finally show ?thesis by blast
  next
    case False
    then have lt: "e + 1 \<le> q" by simp
    with e qr have "q \<noteq> - 1074" by simp
    with quantum_lower[of "\<bar>x\<bar>"] have lo: "2 powi (q + 52) \<le> \<bar>x\<bar>" by (simp add: q_def)
    have "\<bar>x\<bar> \<le> 2 ^ 53 * 2 powi e"
      unfolding ax using of_int_abs_le_53[OF m] by (intro mult_right_mono) simp_all
    also have "\<dots> = 2 powi (e + 53)" by (rule powi_53)
    also have "\<dots> \<le> 2 powi (q + 52)" using lt by (intro power_int_increasing) auto
    finally have "\<bar>x\<bar> = 2 powi (q + 52)" using lo by simp
    then have "\<bar>x / 2 powi q\<bar> = 2 ^ 52" by (rule abs_div_powi_52)
    then have "x / 2 powi q = 2 ^ 52 \<or> x / 2 powi q = - (2 ^ 52)" by (rule abs_eq_cases)
    then have "x / 2 powi q = of_int (2 ^ 52) \<or> x / 2 powi q = of_int (- (2 ^ 52))"
      by simp
    then show ?thesis by blast
  qed
  then obtain k :: int where k: "x / 2 powi q = of_int k" ..
  then have xk: "x = of_int k * 2 powi q" by (simp add: field_simps)
  have "rnd x = Fin (of_int (rhe (x / 2 powi q)) * 2 powi q)"
    using thr by (simp add: rnd_def Let_def x_def[symmetric] q_def)
  also have "\<dots> = Fin x" unfolding k rhe_of_int using xk by simp
  finally show ?thesis by (simp add: x_def)
qed

lemma rnd_Fin_D:
  assumes "rnd x = Fin y"
  shows "\<bar>x\<bar> < overflow_threshold"
    and "y = of_int (rhe (x / 2 powi quantum \<bar>x\<bar>)) * 2 powi quantum \<bar>x\<bar>"
  using assms by (auto simp: rnd_def Let_def split: if_splits)

lemma abs_div_lt:
  fixes x :: real
  assumes "\<bar>x\<bar> < c * p" "0 < p"
  shows "\<bar>x / p\<bar> < c"
  using assms by (simp add: abs_divide pos_divide_less_eq abs_of_pos)

lemma rnd_mantissa:
  assumes "rnd x = Fin y"
  shows "\<bar>rhe (x / 2 powi quantum \<bar>x\<bar>)\<bar> \<le> 2 ^ 53"
proof -
  define q where "q = quantum \<bar>x\<bar>"
  from rnd_Fin_D(1)[OF assms] overflow_threshold_less have "\<bar>x\<bar> < 2 ^ 1024" by linarith
  then have "\<bar>x\<bar> < 2 powi (q + 53)" unfolding q_def by (rule quantum_upper)
  also have "\<dots> = 2 ^ 53 * 2 powi q" by (simp add: power_int_add)
  finally have "\<bar>x / 2 powi q\<bar> < 2 ^ 53" by (rule abs_div_lt) simp
  then have "x / 2 powi q \<le> 2 ^ 53" "- (2 ^ 53) \<le> x / 2 powi q"
    by linarith+
  then have b: "x / 2 powi q \<le> of_int (2 ^ 53)" "of_int (- (2 ^ 53)) \<le> x / 2 powi q"
    by simp_all
  have "rhe (x / 2 powi q) \<le> 2 ^ 53" "- (2 ^ 53) \<le> rhe (x / 2 powi q)"
    by (rule rhe_le[OF b(1)], rule rhe_ge[OF b(2)])
  then show ?thesis unfolding q_def by (simp add: abs_le_iff)
qed

lemma rnd_result_bound:
  assumes "rnd x = Fin y"
  shows "\<bar>y\<bar> < overflow_threshold"
proof -
  define q where "q = quantum \<bar>x\<bar>"
  define m where "m = rhe (x / 2 powi q)"
  have y: "y = of_int m * 2 powi q" using rnd_Fin_D(2)[OF assms] by (simp add: m_def q_def)
  have m53: "\<bar>m\<bar> \<le> 2 ^ 53" using rnd_mantissa[OF assms] by (simp add: m_def q_def)
  have ay: "\<bar>y\<bar> = of_int \<bar>m\<bar> * 2 powi q" by (simp add: y abs_mult)
  have qr: "- 1074 \<le> q" "q \<le> 971" using quantum_range[of "\<bar>x\<bar>"] by (simp_all add: q_def)
  show ?thesis
  proof (cases "q = 971")
    case False
    with qr have "q \<le> 970" by simp
    have "\<bar>y\<bar> \<le> 2 ^ 53 * 2 powi q"
      unfolding ay using of_int_abs_le_53[OF m53] by (intro mult_right_mono) simp_all
    also have "\<dots> \<le> 2 ^ 53 * 2 powi 970"
      using \<open>q \<le> 970\<close> by (intro mult_left_mono power_int_increasing) auto
    also have "\<dots> < overflow_threshold" by (simp add: overflow_threshold_def)
    finally show ?thesis .
  next
    case True
    have "\<bar>x\<bar> < overflow_threshold" by (rule rnd_Fin_D(1)[OF assms])
    also have "overflow_threshold = (2 ^ 53 - 1 / 2) * 2 powi 971"
      by (simp add: overflow_threshold_def)
    finally have "\<bar>x / 2 powi 971\<bar> < 2 ^ 53 - 1 / 2" by (rule abs_div_lt) simp
    then have b: "x / 2 powi q < of_int (2 ^ 53 - 1) + 1 / 2" "of_int (- (2 ^ 53 - 1)) - 1 / 2 < x / 2 powi q"
      unfolding True by (simp; linarith)+
    have "m \<le> 2 ^ 53 - 1" "- (2 ^ 53 - 1) \<le> m"
      unfolding m_def by (rule rhe_le_half[OF b(1)], rule rhe_ge_half[OF b(2)])
    then have "\<bar>m\<bar> \<le> 2 ^ 53 - 1" by (simp add: abs_le_iff)
    then have "(of_int \<bar>m\<bar> :: real) \<le> of_int (2 ^ 53 - 1)" by (simp only: of_int_le_iff)
    then have "\<bar>y\<bar> \<le> of_int (2 ^ 53 - 1) * 2 powi 971"
      unfolding ay True by (intro mult_right_mono) simp_all
    also have "\<dots> < overflow_threshold" by (simp add: overflow_threshold_def)
    finally show ?thesis .
  qed
qed

lemma rnd_idem:
  assumes "rnd x = Fin y"
  shows "rnd y = Fin y"
proof -
  have "rnd (of_int (rhe (x / 2 powi quantum \<bar>x\<bar>)) * 2 powi quantum \<bar>x\<bar>)
        = Fin (of_int (rhe (x / 2 powi quantum \<bar>x\<bar>)) * 2 powi quantum \<bar>x\<bar>)"
    using quantum_range[of "\<bar>x\<bar>"] rnd_mantissa[OF assms] rnd_result_bound[OF assms]
    unfolding rnd_Fin_D(2)[OF assms] by (intro rnd_exact) simp_all
  then show ?thesis unfolding rnd_Fin_D(2)[OF assms] .
qed

lemma rnd_not_NaN [simp]: "rnd x \<noteq> NaN"
  by (simp add: rnd_def Let_def)

lemma rhe_0 [simp]: "rhe 0 = 0"
  by (simp add: rhe_def)

lemma rnd_0 [simp]: "rnd 0 = Fin 0"
  using overflow_threshold_pos by (simp add: rnd_def Let_def)

lemma powi_split: "(2::real) powi (e + int d) = 2 powi e * 2 ^ d"
  by (simp add: power_int_add)

lemma rnd_nonneg:
  assumes "0 \<le> x"
  shows "js_le (Fin 0) (rnd x)"
proof (cases "overflow_threshold \<le> \<bar>x\<bar>")
  case True
  with assms overflow_threshold_pos have "0 < x" by linarith
  with True show ?thesis by (simp add: rnd_def js_le_def)
next
  case False
  have "of_int 0 \<le> x / 2 powi quantum \<bar>x\<bar>" using assms by simp
  then have "0 \<le> rhe (x / 2 powi quantum \<bar>x\<bar>)" by (rule rhe_ge)
  with False show ?thesis by (simp add: rnd_def Let_def js_le_def less_le)
qed

lemma rnd_pos:
  assumes "2 powi (- 1075) < x"
  shows "js_lt (Fin 0) (rnd x)"
proof (cases "overflow_threshold \<le> \<bar>x\<bar>")
  case True
  have "(0::real) < 2 powi (- 1075)" by simp
  with assms have "0 < x" by linarith
  with True show ?thesis by (simp add: rnd_def)
next
  case False
  have x0: "0 < x" using assms by (smt (verit) zero_less_power_int zero_less_numeral)
  define q where "q = quantum \<bar>x\<bar>"
  have "1 \<le> rhe (x / 2 powi q)"
  proof (cases "q = - 1074")
    case True
    have "2 powi (- 1075) = (1 / 2) * (2::real) powi (- 1074)"
      by (simp add: power_int_minus)
    with assms have "1 / 2 * 2 powi (- 1074) < x" by simp
    then have "1 / 2 < x / 2 powi (- 1074)" by (simp add: pos_less_divide_eq)
    then have "of_int 1 - 1 / 2 < x / 2 powi q" unfolding True by simp
    then show ?thesis by (rule rhe_ge_half)
  next
    case False
    with quantum_lower[of "\<bar>x\<bar>"] have "2 powi (q + 52) \<le> \<bar>x\<bar>" by (simp add: q_def)
    then have "2 ^ 52 * 2 powi q \<le> x" using x0 by (simp add: power_int_add mult.commute)
    then have "2 ^ 52 \<le> x / 2 powi q" by (simp add: pos_le_divide_eq)
    moreover have "(1::real) \<le> 2 ^ 52" by simp
    ultimately have "1 \<le> x / 2 powi q" by linarith
    then have "of_int 1 \<le> x / 2 powi q" by simp
    then show ?thesis by (rule rhe_ge)
  qed
  then have "0 < rhe (x / 2 powi q)" by simp
  with \<open>\<not> overflow_threshold \<le> \<bar>x\<bar>\<close> show ?thesis by (simp add: rnd_def Let_def q_def)
qed

lemma is_double_grid:
  assumes "is_double a"
  shows "\<exists>k::int. a = of_int k * 2 powi (- 1074)"
proof -
  define q where "q = quantum \<bar>a\<bar>"
  define m where "m = rhe (a / 2 powi q)"
  from assms have "rnd a = Fin a" by (simp add: is_double_def)
  from rnd_Fin_D(2)[OF this] have a: "a = of_int m * 2 powi q" by (simp add: m_def q_def)
  have "- 1074 \<le> q" using quantum_range[of "\<bar>a\<bar>"] by (simp add: q_def)
  then obtain d where d: "q = - 1074 + int d" by (metis zle_iff_zadd)
  have "a = of_int (m * 2 ^ d) * 2 powi (- 1074)"
    unfolding a d powi_split by simp
  then show ?thesis by blast
qed

lemma double_gap:
  assumes "is_double a" "is_double b" "a < b"
  shows "2 powi (- 1074) \<le> b - a"
proof -
  from is_double_grid[OF assms(1)] obtain ka :: int where a: "a = of_int ka * 2 powi (- 1074)" ..
  from is_double_grid[OF assms(2)] obtain kb :: int where b: "b = of_int kb * 2 powi (- 1074)" ..
  from assms(3) have "ka < kb" unfolding a b by (simp add: mult_less_cancel_right)
  then have "1 \<le> kb - ka" by simp
  then have "(1::real) \<le> of_int (kb - ka)" by (simp only: of_int_1_le_iff)
  then have "1 * 2 powi (- 1074) \<le> (of_int (kb - ka) :: real) * 2 powi (- 1074)"
    by (intro mult_right_mono) simp_all
  then show ?thesis unfolding a b by (simp add: algebra_simps)
qed

section \<open>Evaluation and the two outcomes of validation\<close>

lemma rnd_int:
  assumes "r = of_int \<lfloor>r\<rfloor>" "\<bar>r\<bar> \<le> 2 ^ 53"
  shows "rnd r = Fin r"
proof -
  have "\<bar>of_int \<lfloor>r\<rfloor> :: real\<bar> \<le> 2 ^ 53" using assms by simp
  then have m: "\<bar>\<lfloor>r\<rfloor>\<bar> \<le> 2 ^ 53" by (metis of_int_abs of_int_le_iff of_int_numeral of_int_power)
  have "\<bar>r\<bar> < overflow_threshold" using assms(2) by (simp add: overflow_threshold_def)
  then have "\<bar>of_int \<lfloor>r\<rfloor> * 2 powi 0 :: real\<bar> < overflow_threshold" using assms(1) by simp
  from rnd_exact[OF _ _ m this] have "rnd (of_int \<lfloor>r\<rfloor> * 2 powi 0) = Fin (of_int \<lfloor>r\<rfloor> * 2 powi 0)"
    by simp
  then show ?thesis using assms(1) by simp
qed

lemma computeValuation_invalid:
  assumes "\<not> fst (validateInputs rt i)"
  shows "computeValuation rt i =
     \<lparr>bridges = [],
      summary = \<lparr>avg = NaN, medianValue = NaN, weighted = NaN, priceRange = (NaN, NaN),
                 validMethodCount = 0, usedMethods = []\<rparr>,
      inputs = i, warnings = [], errors = snd (validateInputs rt i), success = False\<rparr>"
  using assms by (cases "validateInputs rt i") (simp add: computeValuation_def)

lemma computeValuation_valid:
  assumes "fst (validateInputs rt i)"
  shows "computeValuation rt i =
     (let (bs, ws, wt) = buildBridges rt i;
          (s, ws') = summarise bs ws wt
      in \<lparr>bridges = bs, summary = s, inputs = i, warnings = ws', errors = [],
           success = (length (filter used bs) > 0)\<rparr>)"
  using assms by (cases "validateInputs rt i") (simp add: computeValuation_def)

lemma bridges_computeValuation:
  "fst (validateInputs rt i) \<Longrightarrow> bridges (computeValuation rt i) = fst (buildBridges rt i)"
  by (simp add: computeValuation_valid split: prod.splits)

lemma standardInputs_valid: "fst (validateInputs rt standardInputs)"
  by (simp add: validateInputs_def standardInputs_def js_le_def js_gt_def truthy_opt_def truthy_def)

lemma invalidInputs_invalid: "\<not> fst (validateInputs rt invalidInputs)"
  by (simp add: validateInputs_def invalidInputs_def js_le_def js_gt_def truthy_opt_def truthy_def)

lemma errors_computeValuation:
  "errors (computeValuation rt i) = snd (validateInputs rt i)"
proof (cases "fst (validateInputs rt i)")
  case True
  then have "snd (validateInputs rt i) = []"
    by (simp add: validateInputs_def Let_def)
  with True show ?thesis by (simp add: computeValuation_valid split: prod.splits)
next
  case False
  then show ?thesis by (simp add: computeValuation_invalid)
qed

lemma validateInputs_errors:
  "snd (validateInputs rt i) =
     (if \<not> isFinite (sharesOutstanding i) \<or> js_le (sharesOutstanding i) (Fin 0)
      then [''Invalid shares outstanding: '' @ numToString rt (sharesOutstanding i)] else [])
   @ (if \<not> isFinite (netDebtYen i)
      then [''Invalid net debt: '' @ numToString rt (netDebtYen i)] else [])
   @ (if \<not> hasValidEv i \<and> \<not> truthy_opt (pePrice i)
      then [''No valid valuation methods provided''] else [])
   @ (case pePrice i of None \<Rightarrow> []
      | Some p \<Rightarrow> if \<not> isFinite p \<or> js_le p (Fin 0)
                  then [''Invalid P/E price: '' @ numToString rt p] else [])"
proof -
  have "(length (filter (\<lambda>m. case evByMethod i m of None \<Rightarrow> False
                                | Some ev \<Rightarrow> isFinite ev \<and> js_gt ev (Fin 0))
            (filter (\<lambda>m. evByMethod i m \<noteq> None) [EV_Sales, EV_EBITDA, P_E])) = 0)
        = (\<not> hasValidEv i)"
    by (auto simp: hasValidEv_def split: option.splits)
  then show ?thesis
    unfolding validateInputs_def Let_def snd_conv by simp
qed

lemma validateInputs_fst:
  "fst (validateInputs rt i) = (snd (validateInputs rt i) = [])"
  by (simp add: validateInputs_def Let_def)

lemma invalidInputs_errors:
  "snd (validateInputs rt invalidInputs) =
     [''Invalid shares outstanding: -1000'', ''Invalid net debt: NaN'',
      ''No valid valuation methods provided'']"
  unfolding validateInputs_errors
  by (simp add: invalidInputs_def hasValidEv_def truthy_opt_def js_le_def numToString_def
      int_str_def digits.simps)

lemma no_methods_error_iff:
  "''No valid valuation methods provided'' \<in> set (snd (validateInputs rt i))
   \<longleftrightarrow> \<not> hasValidEv i \<and> \<not> truthy_opt (pePrice i)"
  by (auto simp: validateInputs_def Let_def hasValidEv_def split: option.splits if_splits)

lemma addBridge_state:
  "addBridge rt i m ev dp (bs, ws) =
     (bs @ fst (addBridge rt i m ev dp ([], [])), ws @ snd (addBridge rt i m ev dp ([], [])))"
  by (simp add: addBridge_def Let_def split: option.splits)

lemma addBridge_single:
  "\<exists>b. fst (addBridge rt i m ev dp ([], [])) = [b] \<and> method_id b = m"
  by (simp add: addBridge_def Let_def split: option.splits)

lemma buildBridges_eq:
  "buildBridges rt i =
     (let A = addBridge rt i EV_Sales (evByMethod i EV_Sales) None ([], []);
          B = addBridge rt i EV_EBITDA (evByMethod i EV_EBITDA) None ([], []);
          C = addBridge rt i P_E None (pePrice i) ([], []);
          w0 = mergeWeights i
      in if positive_opt (evByMethod i EV_EBITDA)
         then (fst A @ fst B @ fst C, snd A @ snd B @ snd C, w0)
         else if evByMethod i EV_EBITDA = None
         then (fst A @ [ebitdaSkipped] @ fst C, snd A @ snd C, w0)
         else if used (hd (fst A))
         then (fst A @ [ebitdaSkipped] @ fst C,
               snd A @ [ebitdaSkipWarning, reweightWarning] @ snd C,
               w0(EV_Sales := js_add (w0 EV_Sales) (w0 EV_EBITDA), EV_EBITDA := Fin 0))
         else (fst A @ [ebitdaSkipped] @ fst C, snd A @ [ebitdaSkipWarning] @ snd C, w0))"
proof -
  define A where "A = addBridge rt i EV_Sales (evByMethod i EV_Sales) None ([], [])"
  define B where "B = addBridge rt i EV_EBITDA (evByMethod i EV_EBITDA) None ([], [])"
  define C where "C = addBridge rt i P_E None (pePrice i) ([], [])"
  obtain b1 where b1: "fst A = [b1]" "method_id b1 = EV_Sales"
    using addBridge_single[of rt i EV_Sales] unfolding A_def by blast
  obtain W1 where A: "A = ([b1], W1)" using b1(1) by (cases A) simp
  have stB: "addBridge rt i EV_EBITDA (evByMethod i EV_EBITDA) None ([b1], W1)
        = ([b1] @ fst B, W1 @ snd B)"
    unfolding B_def by (rule addBridge_state)
  have stC: "addBridge rt i P_E None (pePrice i) (bs, ws) = (bs @ fst C, ws @ snd C)" for bs ws
    unfolding C_def by (rule addBridge_state)
  have fnd: "find (\<lambda>b. method_id b = EV_Sales) ([b1] @ [x]) = Some b1" for x
    using b1(2) by simp
  show ?thesis
  proof (cases "positive_opt (evByMethod i EV_EBITDA)")
    case True
    then show ?thesis
      unfolding buildBridges_def Let_def A_def[symmetric] B_def[symmetric] C_def[symmetric]
      by (simp add: A stB stC)
  next
    case False
    show ?thesis
    proof (cases "evByMethod i EV_EBITDA = None")
      case True
      with False show ?thesis
        unfolding buildBridges_def Let_def A_def[symmetric] B_def[symmetric] C_def[symmetric]
        by (simp add: A stC)
    next
      case nn: False
      with False show ?thesis
        unfolding buildBridges_def Let_def A_def[symmetric] B_def[symmetric] C_def[symmetric]
        using fnd
        by (simp add: A stC)
    qed
  qed
qed



lemma js_gt_not_le: "js_gt x (Fin 0) \<Longrightarrow> \<not> js_le x (Fin 0)"
  by (cases x) (auto simp: js_gt_def js_le_def)

lemma addBridge_used:
  assumes "m \<noteq> P_E" "isFinite ev" "js_gt ev (Fin 0)" "\<not> js_le (js_sub ev (netDebtYen i)) (Fin 0)"
  shows "addBridge rt i m (Some ev) dp ([], []) =
     ([\<lparr>method_id = m, EV = ev, Equity = js_sub ev (netDebtYen i),
        PricePerShare = js_div (js_sub ev (netDebtYen i)) (sharesOutstanding i),
        used = True, skipReason = None\<rparr>], [])"
  using assms js_gt_not_le[OF assms(3)] by (simp add: addBridge_def Let_def)

lemma addBridge_negative:
  assumes "m \<noteq> P_E" "isFinite ev" "js_gt ev (Fin 0)" "js_le (js_sub ev (netDebtYen i)) (Fin 0)"
  shows "addBridge rt i m (Some ev) dp ([], []) =
     ([\<lparr>method_id = m, EV = ev, Equity = js_sub ev (netDebtYen i), PricePerShare = Fin 0,
        used = False,
        skipReason = Some (''Negative equity value: ''
                           @ formatJPY rt (js_sub ev (netDebtYen i)))\<rparr>],
      [negativeEquityWarning rt i m ev])"
  using assms js_gt_not_le[OF assms(3)] by (simp add: addBridge_def Let_def)

lemma addBridge_invalid:
  assumes "m \<noteq> P_E" "ev = None \<or> (\<exists>v. ev = Some v \<and> (\<not> isFinite v \<or> js_le v (Fin 0)))"
  shows "addBridge rt i m ev dp ([], []) =
     ([\<lparr>method_id = m, EV = NaN, Equity = NaN, PricePerShare = NaN, used = False,
        skipReason = Some (''Invalid EV: '' @ optToString rt ev)\<rparr>], [])"
  using assms by (auto simp: addBridge_def Let_def)

lemma addBridge_PE_warnings: "snd (addBridge rt i P_E ev dp ([], [])) = []"
  by (simp add: addBridge_def Let_def split: option.splits)

lemma addBridge_PE_used:
  assumes "isFinite p" "js_gt p (Fin 0)"
  shows "addBridge rt i P_E ev (Some p) ([], []) =
     ([\<lparr>method_id = P_E, EV = NaN, Equity = js_mul p (sharesOutstanding i), PricePerShare = p,
        used = True, skipReason = None\<rparr>], [])"
  using assms js_gt_not_le[OF assms(2)] by (simp add: addBridge_def Let_def)

lemma buildBridges_methods:
  "map method_id (fst (buildBridges rt i)) = [EV_Sales, EV_EBITDA, P_E]"
proof -
  obtain a where a: "fst (addBridge rt i EV_Sales (evByMethod i EV_Sales) None ([], [])) = [a]"
      "method_id a = EV_Sales" using addBridge_single by blast
  obtain b where b: "fst (addBridge rt i EV_EBITDA (evByMethod i EV_EBITDA) None ([], [])) = [b]"
      "method_id b = EV_EBITDA" using addBridge_single by blast
  obtain c where c: "fst (addBridge rt i P_E None (pePrice i) ([], [])) = [c]"
      "method_id c = P_E" using addBridge_single by blast
  show ?thesis
    unfolding buildBridges_eq Let_def by (simp add: a b c ebitdaSkipped_def)
qed

lemma find_by_method:
  assumes "map method_id bs = [EV_Sales, EV_EBITDA, P_E]"
  shows "find (\<lambda>b. method_id b = EV_Sales) bs = Some (bs ! 0)"
    and "find (\<lambda>b. method_id b = EV_EBITDA) bs = Some (bs ! 1)"
    and "find (\<lambda>b. method_id b = P_E) bs = Some (bs ! 2)"
proof -
  from assms obtain a b c where bs: "bs = [a, b, c]"
    by (cases bs; cases "tl bs"; cases "tl (tl bs)") auto
  with assms show "find (\<lambda>b. method_id b = EV_Sales) bs = Some (bs ! 0)"
    "find (\<lambda>b. method_id b = EV_EBITDA) bs = Some (bs ! 1)"
    "find (\<lambda>b. method_id b = P_E) bs = Some (bs ! 2)"
    by simp_all
qed

lemma summarise_warnings:
  "snd (summarise bs ws wt) = ws \<or> snd (summarise bs ws wt) = ws @ [ja_no_weights]"
  by (simp add: summarise_def Let_def split: prod.splits)

lemma summarise_count:
  "validMethodCount (fst (summarise bs ws wt)) = length (filter used bs)"
  "usedMethods (fst (summarise bs ws wt)) = map method_id (filter used bs)"
  by (simp_all add: summarise_def Let_def split: prod.splits)

lemma warnings_computeValuation:
  assumes "fst (validateInputs rt i)"
  shows "warnings (computeValuation rt i) = fst (snd (buildBridges rt i))
       \<or> warnings (computeValuation rt i) = fst (snd (buildBridges rt i)) @ [ja_no_weights]"
proof -
  obtain bs ws wt where b: "buildBridges rt i = (bs, ws, wt)" by (cases "buildBridges rt i")
  obtain s ws' where s: "summarise bs ws wt = (s, ws')" by (cases "summarise bs ws wt")
  from summarise_warnings[of bs ws wt] s have "ws' = ws \<or> ws' = ws @ [ja_no_weights]" by simp
  then show ?thesis by (simp add: computeValuation_valid[OF assms] b s)
qed

lemma summary_computeValuation:
  assumes "fst (validateInputs rt i)"
  shows "summary (computeValuation rt i)
     = fst (summarise (fst (buildBridges rt i)) (fst (snd (buildBridges rt i)))
              (snd (snd (buildBridges rt i))))"
proof -
  obtain bs ws wt where b: "buildBridges rt i = (bs, ws, wt)" by (cases "buildBridges rt i")
  obtain s ws' where s: "summarise bs ws wt = (s, ws')" by (cases "summarise bs ws wt")
  show ?thesis by (simp add: computeValuation_valid[OF assms] b s)
qed

lemma find_bridge_sales:
  assumes "fst (validateInputs rt i)"
    and "fst (addBridge rt i EV_Sales (evByMethod i EV_Sales) None ([], [])) = [row]"
  shows "find (\<lambda>b. method_id b = EV_Sales) (bridges (computeValuation rt i)) = Some row"
proof -
  have "fst (buildBridges rt i) ! 0 = row"
    unfolding buildBridges_eq Let_def using assms(2) by simp
  then show ?thesis
    using find_by_method(1)[OF buildBridges_methods[of rt i]]
    by (simp add: bridges_computeValuation[OF assms(1)])
qed

lemma find_bridge_ebitda:
  assumes "fst (validateInputs rt i)"
    and "(if positive_opt (evByMethod i EV_EBITDA)
          then fst (addBridge rt i EV_EBITDA (evByMethod i EV_EBITDA) None ([], []))
          else [ebitdaSkipped]) = [row]"
  shows "find (\<lambda>b. method_id b = EV_EBITDA) (bridges (computeValuation rt i)) = Some row"
proof -
  obtain a where a: "fst (addBridge rt i EV_Sales (evByMethod i EV_Sales) None ([], [])) = [a]"
    using addBridge_single by blast
  have "fst (buildBridges rt i) = a # row # fst (addBridge rt i P_E None (pePrice i) ([], []))"
  proof (cases "positive_opt (evByMethod i EV_EBITDA)")
    case True
    with assms(2) a show ?thesis unfolding buildBridges_eq Let_def by simp
  next
    case False
    with assms(2) a show ?thesis unfolding buildBridges_eq Let_def by simp
  qed
  then have "fst (buildBridges rt i) ! 1 = row" by simp
  then show ?thesis
    using find_by_method(2)[OF buildBridges_methods[of rt i]]
    by (simp add: bridges_computeValuation[OF assms(1)])
qed

lemma standardInputs_bridges:
  "fst (buildBridges rt standardInputs) =
     [\<lparr>method_id = EV_Sales, EV = Fin 5062000000, Equity = Fin 1272000000,
        PricePerShare = Fin 1272, used = True, skipReason = None\<rparr>,
      \<lparr>method_id = EV_EBITDA, EV = Fin 4860000000, Equity = Fin 1070000000,
        PricePerShare = Fin 1070, used = True, skipReason = None\<rparr>,
      \<lparr>method_id = P_E, EV = NaN, Equity = Fin 1234000000,
        PricePerShare = Fin 1234, used = True, skipReason = None\<rparr>]"
  unfolding buildBridges_eq Let_def
  by (simp add: standardInputs_def positive_opt_def addBridge_def js_gt_def js_le_def js_sub_def
      rnd_int)

lemma buildBridges_warnings:
  "fst (snd (buildBridges rt i)) =
     snd (addBridge rt i EV_Sales (evByMethod i EV_Sales) None ([], []))
     @ (if positive_opt (evByMethod i EV_EBITDA)
        then snd (addBridge rt i EV_EBITDA (evByMethod i EV_EBITDA) None ([], []))
        else if evByMethod i EV_EBITDA = None then []
        else if used (hd (fst (addBridge rt i EV_Sales (evByMethod i EV_Sales) None ([], []))))
        then [ebitdaSkipWarning, reweightWarning]
        else [ebitdaSkipWarning])"
  unfolding buildBridges_eq Let_def by (simp add: addBridge_PE_warnings)

lemma addBridge_warnings_cases:
  "snd (addBridge rt i m ev dp ([], [])) = []
   \<or> (\<exists>v. ev = Some v \<and> snd (addBridge rt i m ev dp ([], [])) = [negativeEquityWarning rt i m v])"
  by (simp add: addBridge_def Let_def split: option.splits)

lemma negativeEquityWarning_neq [simp]:
  "negativeEquityWarning rt i EV_Sales v \<noteq> negativeEquityWarning rt i' EV_EBITDA v'"
  "negativeEquityWarning rt i EV_EBITDA v \<noteq> negativeEquityWarning rt i' EV_Sales v'"
  "negativeEquityWarning rt i m v \<noteq> ebitdaSkipWarning"
  "negativeEquityWarning rt i m v \<noteq> reweightWarning"
  "negativeEquityWarning rt i m v \<noteq> ja_no_weights"
  by (cases m; simp add: negativeEquityWarning_def ebitdaSkipWarning_def reweightWarning_def
      ja_no_weights_def ja_method_skip_def ja_weight_adjusted_def)+

lemmas negativeEquityWarning_neq' [simp] = negativeEquityWarning_neq[symmetric]

lemma count_list_append [simp]: "count_list (xs @ ys) x = count_list xs x + count_list ys x"
  by (induction xs) auto


lemma count_negative_warning:
  assumes v: "fst (validateInputs rt i)"
    and w: "count_list (fst (snd (buildBridges rt i))) (negativeEquityWarning rt i m ev) = n"
  shows "count_list (warnings (computeValuation rt i)) (negativeEquityWarning rt i m ev) = n"
  using warnings_computeValuation[OF v] w by auto

lemma highDebtInputs_valid: "fst (validateInputs rt highDebtInputs)"
  by (simp add: validateInputs_def highDebtInputs_def standardInputs_def js_le_def js_gt_def
      truthy_opt_def truthy_def)

lemma buildBridges_weights:
  "snd (snd (buildBridges rt i)) =
     (if \<not> positive_opt (evByMethod i EV_EBITDA) \<and> evByMethod i EV_EBITDA \<noteq> None
         \<and> used (hd (fst (addBridge rt i EV_Sales (evByMethod i EV_Sales) None ([], []))))
      then (mergeWeights i)(EV_Sales := js_add (mergeWeights i EV_Sales) (mergeWeights i EV_EBITDA),
                            EV_EBITDA := Fin 0)
      else mergeWeights i)"
  unfolding buildBridges_eq Let_def by auto

lemma sales_bridge_hd:
  assumes "fst (validateInputs rt i)"
  shows "find (\<lambda>b. method_id b = EV_Sales) (bridges (computeValuation rt i))
     = Some (hd (fst (addBridge rt i EV_Sales (evByMethod i EV_Sales) None ([], []))))"
proof -
  obtain a where a: "fst (addBridge rt i EV_Sales (evByMethod i EV_Sales) None ([], [])) = [a]"
    using addBridge_single by blast
  show ?thesis using find_bridge_sales[OF assms a] by (simp add: a)
qed

lemma addBridge_used_no_warning:
  "used (hd (fst (addBridge rt i m ev dp ([], [])))) \<Longrightarrow> snd (addBridge rt i m ev dp ([], [])) = []"
  by (simp add: addBridge_def Let_def split: option.splits if_splits)

lemma warning_literals_neq [simp]:
  "ebitdaSkipWarning \<noteq> reweightWarning" "reweightWarning \<noteq> ebitdaSkipWarning"
  "ebitdaSkipWarning \<noteq> ja_no_weights" "ja_no_weights \<noteq> ebitdaSkipWarning"
  "reweightWarning \<noteq> ja_no_weights" "ja_no_weights \<noteq> reweightWarning"
  by (simp_all add: ebitdaSkipWarning_def reweightWarning_def ja_no_weights_def)

lemma negativeEbitdaInputs_valid: "fst (validateInputs rt negativeEbitdaInputs)"
  by (simp add: validateInputs_def negativeEbitdaInputs_def standardInputs_def js_le_def js_gt_def
      truthy_opt_def truthy_def)

lemma negativeEbitdaInputs_bridges:
  "fst (buildBridges rt negativeEbitdaInputs) =
     [\<lparr>method_id = EV_Sales, EV = Fin 5000000000, Equity = Fin 1210000000,
        PricePerShare = Fin 1210, used = True, skipReason = None\<rparr>,
      ebitdaSkipped,
      \<lparr>method_id = P_E, EV = NaN, Equity = Fin 1234000000,
        PricePerShare = Fin 1234, used = True, skipReason = None\<rparr>]"
  unfolding buildBridges_eq Let_def
  by (simp add: negativeEbitdaInputs_def standardInputs_def positive_opt_def addBridge_def
      js_gt_def js_le_def js_sub_def rnd_int)

lemma infiniteEbitdaInputs_valid: "fst (validateInputs rt infiniteEbitdaInputs)"
  by (simp add: validateInputs_def infiniteEbitdaInputs_def standardInputs_def js_le_def js_gt_def
      truthy_opt_def truthy_def)

lemma infiniteEbitdaInputs_bridges:
  "buildBridges rt infiniteEbitdaInputs =
     ([\<lparr>method_id = EV_Sales, EV = Fin 5062000000, Equity = Fin 1272000000,
        PricePerShare = Fin 1272, used = True, skipReason = None\<rparr>,
       \<lparr>method_id = EV_EBITDA, EV = NaN, Equity = NaN, PricePerShare = NaN, used = False,
         skipReason = Some ''Invalid EV: Infinity''\<rparr>,
       \<lparr>method_id = P_E, EV = NaN, Equity = Fin 1234000000,
         PricePerShare = Fin 1234, used = True, skipReason = None\<rparr>],
      [], mergeWeights infiniteEbitdaInputs)"
  unfolding buildBridges_eq Let_def
  by (simp add: infiniteEbitdaInputs_def standardInputs_def positive_opt_def addBridge_def
      js_gt_def js_le_def js_sub_def rnd_int optToString_def numToString_def)

lemma length_methodScenarios:
  "length (methodScenarios rt b mv m) = (if truthy_opt (evByMethod b m) then 2 else 0)"
  by (simp add: methodScenarios_def truthy_opt_def split: option.splits)

lemma length_peScenarios:
  "length (peScenarios rt b mv) = (if truthy_opt (pePrice b) then 2 else 0)"
  by (simp add: peScenarios_def truthy_opt_def split: option.splits)

lemma length_netDebtScenarios: "length (netDebtScenarios rt b nv) = 2"
  by (simp add: netDebtScenarios_def Let_def)

lemma valid_shares:
  assumes "fst (validateInputs rt i)"
  shows "\<exists>s. sharesOutstanding i = Fin s \<and> 0 < s"
proof -
  from assms have "isFinite (sharesOutstanding i)" "\<not> js_le (sharesOutstanding i) (Fin 0)"
    by (simp_all add: validateInputs_fst validateInputs_errors split: if_splits)
  then show ?thesis by (cases "sharesOutstanding i") (auto simp: js_le_def)
qed

lemma valid_netDebt:
  assumes "fst (validateInputs rt i)"
  shows "\<exists>n. netDebtYen i = Fin n"
proof -
  from assms have "isFinite (netDebtYen i)"
    by (simp_all add: validateInputs_fst validateInputs_errors split: if_splits)
  then show ?thesis by (cases "netDebtYen i") auto
qed

lemma valid_pePrice:
  assumes "fst (validateInputs rt i)" "pePrice i = Some p"
  shows "\<exists>r. p = Fin r \<and> 0 < r"
proof -
  from assms have "isFinite p" "\<not> js_le p (Fin 0)"
    by (simp_all add: validateInputs_fst validateInputs_errors split: if_splits)
  then show ?thesis by (cases p) (auto simp: js_le_def)
qed

lemma js_not_le_zero: "x \<noteq> NaN \<Longrightarrow> \<not> js_le x (Fin 0) \<Longrightarrow> js_lt (Fin 0) x"
  by (cases x) (auto simp: js_le_def)

lemma js_lt_imp_le: "js_lt x y \<Longrightarrow> js_le x y"
  by (simp add: js_le_def)

lemma js_div_nonneg:
  assumes "js_lt (Fin 0) x" "0 < s"
  shows "js_le (Fin 0) (js_div x (Fin s))" "js_div x (Fin s) \<noteq> NaN"
proof -
  show "js_le (Fin 0) (js_div x (Fin s))"
  proof (cases x)
    case (Fin e)
    with assms have "0 \<le> e / s" by simp
    from rnd_nonneg[OF this] show ?thesis using Fin assms by simp
  qed (use assms in \<open>simp_all add: js_le_def\<close>)
  show "js_div x (Fin s) \<noteq> NaN"
    using assms by (cases x) simp_all
qed

lemma js_div_pos:
  assumes "2 powi (- 1075) < e / s" "e / s < overflow_threshold" "0 < s"
  shows "isFinite (js_div (Fin e) (Fin s))" "js_lt (Fin 0) (js_div (Fin e) (Fin s))"
proof -
  have "(0::real) < 2 powi (- 1075)" by simp
  with assms(1) have "0 < e / s" by linarith
  with assms(2) have "\<not> overflow_threshold \<le> \<bar>e / s\<bar>" by simp
  then show "isFinite (js_div (Fin e) (Fin s))"
    using assms(3) by (simp add: rnd_def Let_def)
  show "js_lt (Fin 0) (js_div (Fin e) (Fin s))"
    using rnd_pos[OF assms(1)] assms(3) by simp
qed

lemma addBridge_used_row:
  assumes nd: "netDebtYen i = Fin n" and sh: "sharesOutstanding i = Fin s" "0 < s"
    and b: "fst (addBridge rt i m ev dp ([], [])) = [b]" and u: "used b"
  shows "if m = P_E
         then (\<exists>r. dp = Some (Fin r) \<and> 0 < r \<and> PricePerShare b = Fin r)
         else (\<exists>x. ev = Some (Fin x) \<and> 0 < x \<and> EV b = Fin x \<and> Equity b = js_sub (Fin x) (Fin n)
               \<and> js_lt (Fin 0) (Equity b) \<and> PricePerShare b = js_div (Equity b) (Fin s))"
proof (cases "m = P_E")
  case True
  with b u show ?thesis
    by (cases dp; cases "the dp")
      (auto simp: addBridge_def Let_def js_le_def split: if_splits)
next
  case False
  show ?thesis
  proof (cases ev)
    case None
    with False b u show ?thesis by (auto simp: addBridge_def Let_def)
  next
    case (Some v)
    show ?thesis
    proof (cases v)
      case (Fin x)
      have ne: "js_sub (Fin x) (Fin n) \<noteq> NaN" by (simp add: js_sub_def)
      from False b u Some Fin nd sh show ?thesis
        using js_not_le_zero[OF ne]
        by (auto simp: addBridge_def Let_def js_le_def[of "Fin x"] split: if_splits)
    qed (use False b u Some in \<open>auto simp: addBridge_def Let_def\<close>)
  qed
qed


lemma used_bridge_origin:
  assumes "b \<in> set (fst (buildBridges rt i))" "used b"
  shows "fst (addBridge rt i (method_id b)
                (if method_id b = P_E then None else evByMethod i (method_id b))
                (if method_id b = P_E then pePrice i else None) ([], [])) = [b]"
proof -
  obtain a where a: "fst (addBridge rt i EV_Sales (evByMethod i EV_Sales) None ([], [])) = [a]"
      "method_id a = EV_Sales" using addBridge_single by blast
  obtain e where e: "fst (addBridge rt i EV_EBITDA (evByMethod i EV_EBITDA) None ([], [])) = [e]"
      "method_id e = EV_EBITDA" using addBridge_single by blast
  obtain c where c: "fst (addBridge rt i P_E None (pePrice i) ([], [])) = [c]"
      "method_id c = P_E" using addBridge_single by blast
  from assms have "b = a \<or> b = e \<or> b = c"
    unfolding buildBridges_eq Let_def
    by (auto simp: a c e ebitdaSkipped_def split: if_splits)
  then show ?thesis using a c e by auto
qed

lemma overflowInputs_valid: "fst (validateInputs rt overflowInputs)"
  by (simp add: validateInputs_def overflowInputs_def js_le_def js_gt_def
      truthy_opt_def truthy_def)

lemma overflowInputs_bridges:
  "fst (buildBridges rt overflowInputs) =
     [\<lparr>method_id = EV_Sales, EV = Fin (2 ^ 1023), Equity = PInf,
        PricePerShare = PInf, used = True, skipReason = None\<rparr>,
      ebitdaSkipped,
      \<lparr>method_id = P_E, EV = NaN, Equity = NaN, PricePerShare = NaN, used = False,
        skipReason = Some ''No valid P/E price provided''\<rparr>]"
  unfolding buildBridges_eq Let_def
  by (simp add: overflowInputs_def positive_opt_def addBridge_def js_gt_def js_le_def js_sub_def
      rnd_def overflow_threshold_def)

section \<open>Sorting and the median\<close>

lemma js_add_commute: "js_add x y = js_add y x"
  by (cases x; cases y) (simp_all add: add.commute)

lemma rnd_nonpos:
  assumes "x \<le> 0"
  shows "\<not> js_lt (Fin 0) (rnd x)"
proof -
  have "js_le (Fin 0) (rnd (- x))" using assms by (intro rnd_nonneg) simp
  then show ?thesis
    unfolding rnd_minus by (cases "rnd x") (auto simp: js_le_def)
qed

lemma sub_sign:
  assumes "comparable x" "comparable y"
  shows "js_lt (Fin 0) (js_sub x y) \<longleftrightarrow> js_lt y x"
proof (cases x; cases y)
  fix a b assume xy: "x = Fin a" "y = Fin b"
  with assms have d: "is_double a" "is_double b"
    by (simp_all add: comparable_def is_number_def)
  have "js_lt (Fin 0) (rnd (a - b)) \<longleftrightarrow> b < a"
  proof
    assume "b < a"
    from double_gap[OF d(2) d(1) this] have "2 powi (- 1074) \<le> a - b" .
    moreover have "(2::real) powi (- 1075) < 2 powi (- 1074)"
      by (intro power_int_strict_increasing) auto
    ultimately have "2 powi (- 1075) < a - b" by linarith
    then show "js_lt (Fin 0) (rnd (a - b))" by (rule rnd_pos)
  next
    assume p: "js_lt (Fin 0) (rnd (a - b))"
    show "b < a"
    proof (rule ccontr)
      assume "\<not> b < a"
      then have "a - b \<le> 0" by simp
      from rnd_nonpos[OF this] p show False by simp
    qed
  qed
  then show ?thesis by (simp add: xy js_sub_def)
qed (use assms in \<open>simp_all add: js_sub_def comparable_def\<close>)

lemma js_le_total: "x \<noteq> NaN \<Longrightarrow> y \<noteq> NaN \<Longrightarrow> \<not> js_lt y x \<Longrightarrow> js_le x y"
  by (cases x; cases y) (auto simp: js_le_def)

lemma js_le_trans: "js_le x y \<Longrightarrow> js_le y z \<Longrightarrow> js_le x z"
  by (cases x; cases y; cases z) (auto simp: js_le_def)

lemma mset_insert_by: "mset (insert_by cmp x ys) = add_mset x (mset ys)"
  by (induction ys) auto

lemma mset_array_sort: "mset (array_sort cmp xs) = mset xs"
  by (induction xs) (simp_all add: array_sort_def mset_insert_by)

lemma set_insert_by: "set (insert_by cmp x ys) = insert x (set ys)"
  by (induction ys) auto

lemma sorted_insert_by:
  assumes "comparable x" "list_all comparable ys" "sorted_wrt js_le ys"
  shows "sorted_wrt js_le (insert_by (\<lambda>a b. js_sub a b) x ys)"
  using assms(2,3)
proof (induction ys)
  case Nil
  then show ?case by simp
next
  case (Cons y ys)
  then have y: "comparable y" and ys: "list_all comparable ys" and s: "sorted_wrt js_le ys"
    and le: "\<forall>z\<in>set ys. js_le y z" by simp_all
  show ?case
  proof (cases "js_lt (Fin 0) (js_sub x y)")
    case True
    then have "js_lt y x" using sub_sign[OF assms(1) y] by simp
    then have "js_le y x" by (simp add: js_le_def)
    with True le Cons.IH[OF ys s] show ?thesis by (simp add: set_insert_by)
  next
    case False
    then have "\<not> js_lt y x" using sub_sign[OF assms(1) y] by simp
    then have xy: "js_le x y" using assms(1) y by (intro js_le_total) (simp_all add: comparable_def)
    then have "\<forall>z\<in>set ys. js_le x z" using le js_le_trans by blast
    with False xy le s show ?thesis by simp
  qed
qed

lemma sorted_array_sort:
  "list_all comparable xs \<Longrightarrow> sorted_wrt js_le (array_sort (\<lambda>a b. js_sub a b) xs)"
proof (induction xs)
  case Nil
  then show ?case by (simp add: array_sort_def)
next
  case (Cons x xs)
  then have c: "comparable x" "list_all comparable xs" by simp_all
  have "list_all comparable (array_sort (\<lambda>a b. js_sub a b) xs)"
    using c(2) mset_array_sort[of "\<lambda>a b. js_sub a b" xs]
    by (metis list_all_iff set_mset_mset)
  from sorted_insert_by[OF c(1) this Cons.IH[OF c(2)]]
  show ?case by (simp add: array_sort_def)
qed

lemma length_array_sort [simp]: "length (array_sort cmp xs) = length xs"
  using mset_array_sort[of cmp xs] by (metis size_mset)

lemma median_single: "median [x] = x"
  by (simp add: median_def array_sort_def)

lemma median_pair: "median [x, y] = js_div (js_add x y) (Fin 2)"
  by (simp add: median_def array_sort_def js_add_commute[of y x])

lemma is_number_rnd [simp]: "is_number (rnd x)"
  by (cases "rnd x") (auto simp: is_number_def is_double_def dest: rnd_idem)

lemma is_number_Fin_0 [simp]: "is_number (Fin 0)"
  by (simp add: is_number_def is_double_def)

lemma is_number_js_div [simp]: "is_number (js_div x y)"
  by (cases x; cases y) (simp_all, simp_all add: is_number_def)

lemma is_number_js_add [simp]: "is_number (js_add x y)"
  by (cases x; cases y) (simp_all, simp_all add: is_number_def)

lemma is_number_js_mul [simp]: "is_number (js_mul x y)"
  by (cases x; cases y) (simp_all, simp_all add: is_number_def)

lemma used_bridge_price:
  assumes v: "fst (validateInputs rt i)" and b: "b \<in> set (bridges (computeValuation rt i))"
    and u: "used b"
  shows "if method_id b = P_E
         then (\<exists>r. pePrice i = Some (Fin r) \<and> 0 < r \<and> PricePerShare b = Fin r)
         else (\<exists>x n s. evByMethod i (method_id b) = Some (Fin x) \<and> 0 < x
                 \<and> netDebtYen i = Fin n \<and> sharesOutstanding i = Fin s \<and> 0 < s
                 \<and> EV b = Fin x \<and> Equity b = js_sub (Fin x) (Fin n)
                 \<and> js_lt (Fin 0) (Equity b) \<and> PricePerShare b = js_div (Equity b) (Fin s))"
proof -
  from valid_shares[OF v] obtain s where s: "sharesOutstanding i = Fin s" "0 < s" by blast
  from valid_netDebt[OF v] obtain n where n: "netDebtYen i = Fin n" by blast
  from b have "b \<in> set (fst (buildBridges rt i))" by (simp add: bridges_computeValuation[OF v])
  from addBridge_used_row[OF n s used_bridge_origin[OF this u] u]
  show ?thesis using s n by (auto split: if_splits)
qed

lemma used_prices_comparable:
  assumes v: "fst (validateInputs rt i)" and w: "wellformed i"
  shows "list_all comparable (map PricePerShare (filter used (bridges (computeValuation rt i))))"
proof -
  have "comparable (PricePerShare b)"
    if b: "b \<in> set (bridges (computeValuation rt i))" and u: "used b" for b
  proof (cases "method_id b = P_E")
    case True
    with used_bridge_price[OF v b u] obtain r where "pePrice i = Some (Fin r)"
        "PricePerShare b = Fin r" by auto
    with w show ?thesis by (simp add: comparable_def wellformed_def is_number_opt_def)
  next
    case False
    with used_bridge_price[OF v b u] obtain s where s: "0 < s" "js_lt (Fin 0) (Equity b)"
        "PricePerShare b = js_div (Equity b) (Fin s)" by auto
    from js_div_nonneg(2)[OF s(2) s(1)] s(3) show ?thesis by (simp add: comparable_def)
  qed
  then show ?thesis by (auto simp: list_all_iff)
qed

lemma medianValue_summarise:
  "medianValue (fst (summarise bs ws wt)) = median (map PricePerShare (filter used bs))"
  by (simp add: summarise_def Let_def median_def split: prod.splits)

lemma standardInputs_wellformed: "wellformed standardInputs"
  by (simp add: wellformed_def standardInputs_def is_number_opt_def is_number_def is_double_def
      rnd_int)

section \<open>A weighted mean outside the range\<close>

lemma rnd_eval_at:
  assumes "- 1074 \<le> e" "e \<le> 970" "2 powi (e + 52) \<le> \<bar>x\<bar>" "\<bar>x\<bar> < 2 powi (e + 53)"
    and "rhe (x / 2 powi e) = m"
  shows "rnd x = Fin (of_int m * 2 powi e)"
proof -
  have "(2::real) powi (e + 53) \<le> 2 powi 1023"
    using assms(2) by (intro power_int_increasing) auto
  also have "\<dots> < overflow_threshold" by (simp add: overflow_threshold_def)
  finally have "\<bar>x\<bar> < overflow_threshold" using assms(4) by linarith
  from rnd_eval[OF assms(1) _ assms(4) _ this] assms(2,3,5) show ?thesis by simp
qed

lemma w04: "rnd (4 / 10) = Fin (3602879701896397 / 9007199254740992)"
  by (subst rnd_eval_at[where e = "- 54" and m = 7205759403792794]) (simp_all add: rhe_def)

lemma w02: "rnd (2 / 10) = Fin (3602879701896397 / 18014398509481984)"
  by (subst rnd_eval_at[where e = "- 55" and m = 7205759403792794]) (simp_all add: rhe_def)


lemma DEFAULT_WEIGHTS_values:
  "DEFAULT_WEIGHTS EV_Sales = Fin (3602879701896397 / 9007199254740992)"
  "DEFAULT_WEIGHTS EV_EBITDA = Fin (3602879701896397 / 9007199254740992)"
  "DEFAULT_WEIGHTS P_E = Fin (3602879701896397 / 18014398509481984)"
  by (simp_all only: DEFAULT_WEIGHTS.simps w04 w02)

lemma weighted_steps:
  "js_add (Fin 0) (Fin (3602879701896397 / 9007199254740992))
     = Fin (3602879701896397 / 9007199254740992)"
  "js_add (Fin (3602879701896397 / 9007199254740992)) (Fin (3602879701896397 / 18014398509481984))
     = Fin (1351079888211149 / 2251799813685248)"
  "js_div (Fin (3602879701896397 / 9007199254740992)) (Fin (1351079888211149 / 2251799813685248))
     = Fin (6004799503160661 / 9007199254740992)"
  "js_mul (Fin 7) (Fin (6004799503160661 / 9007199254740992))
     = Fin (2627099782632789 / 562949953421312)"
  "js_add (Fin 0) (Fin (2627099782632789 / 562949953421312))
     = Fin (2627099782632789 / 562949953421312)"
  "js_div (Fin (3602879701896397 / 18014398509481984)) (Fin (1351079888211149 / 2251799813685248))
     = Fin (6004799503160661 / 18014398509481984)"
  "js_mul (Fin 7) (Fin (6004799503160661 / 18014398509481984))
     = Fin (2627099782632789 / 1125899906842624)"
  "js_add (Fin (2627099782632789 / 562949953421312)) (Fin (2627099782632789 / 1125899906842624))
     = Fin (7881299347898367 / 1125899906842624)"
proof -
  show "js_add (Fin 0) (Fin (3602879701896397 / 9007199254740992))
     = Fin (3602879701896397 / 9007199254740992)"
    unfolding js_add.simps
    by (subst rnd_eval_at[where e = "- 54" and m = 7205759403792794]) (simp_all add: rhe_def)
  show "js_add (Fin (3602879701896397 / 9007199254740992)) (Fin (3602879701896397 / 18014398509481984))
     = Fin (1351079888211149 / 2251799813685248)"
    unfolding js_add.simps
    by (subst rnd_eval_at[where e = "- 53" and m = 5404319552844596]) (simp_all add: rhe_def)
  show "js_div (Fin (3602879701896397 / 9007199254740992)) (Fin (1351079888211149 / 2251799813685248))
     = Fin (6004799503160661 / 9007199254740992)"
    unfolding js_div.simps
    by (subst rnd_eval_at[where e = "- 53" and m = 6004799503160661]) (simp_all add: rhe_def)
  show "js_mul (Fin 7) (Fin (6004799503160661 / 9007199254740992))
     = Fin (2627099782632789 / 562949953421312)"
    unfolding js_mul.simps
    by (subst rnd_eval_at[where e = "- 50" and m = 5254199565265578]) (simp_all add: rhe_def)
  show "js_add (Fin 0) (Fin (2627099782632789 / 562949953421312))
     = Fin (2627099782632789 / 562949953421312)"
    unfolding js_add.simps
    by (subst rnd_eval_at[where e = "- 50" and m = 5254199565265578]) (simp_all add: rhe_def)
  show "js_div (Fin (3602879701896397 / 18014398509481984)) (Fin (1351079888211149 / 2251799813685248))
     = Fin (6004799503160661 / 18014398509481984)"
    unfolding js_div.simps
    by (subst rnd_eval_at[where e = "- 54" and m = 6004799503160661]) (simp_all add: rhe_def)
  show "js_mul (Fin 7) (Fin (6004799503160661 / 18014398509481984))
     = Fin (2627099782632789 / 1125899906842624)"
    unfolding js_mul.simps
    by (subst rnd_eval_at[where e = "- 51" and m = 5254199565265578]) (simp_all add: rhe_def)
  show "js_add (Fin (2627099782632789 / 562949953421312)) (Fin (2627099782632789 / 1125899906842624))
     = Fin (7881299347898367 / 1125899906842624)"
    unfolding js_add.simps
    by (subst rnd_eval_at[where e = "- 50" and m = 7881299347898367]) (simp_all add: rhe_def)
qed


lemma equalPricesInputs_valid: "fst (validateInputs rt equalPricesInputs)"
  by (simp add: validateInputs_def equalPricesInputs_def js_le_def js_gt_def
      truthy_opt_def truthy_def)

lemma equalPricesInputs_bridges:
  "buildBridges rt equalPricesInputs =
     ([\<lparr>method_id = EV_Sales, EV = Fin 7, Equity = Fin 7, PricePerShare = Fin 7,
         used = True, skipReason = None\<rparr>,
       ebitdaSkipped,
       \<lparr>method_id = P_E, EV = NaN, Equity = Fin 7, PricePerShare = Fin 7,
         used = True, skipReason = None\<rparr>],
      [], DEFAULT_WEIGHTS)"
proof -
  have w: "mergeWeights equalPricesInputs = DEFAULT_WEIGHTS"
    by (rule ext) (simp add: mergeWeights_def equalPricesInputs_def)
  show ?thesis
    unfolding buildBridges_eq Let_def w
    by (simp add: equalPricesInputs_def positive_opt_def addBridge_def Let_def js_gt_def js_le_def
        js_sub_def rnd_int)
qed

lemma equalPricesInputs_summary:
  "summary (computeValuation rt equalPricesInputs) =
     \<lparr>avg = Fin 7, medianValue = Fin 7,
      weighted = Fin (7881299347898367 / 1125899906842624),
      priceRange = (Fin 7, Fin 7), validMethodCount = 2, usedMethods = [EV_Sales, P_E]\<rparr>"
proof -
  have t: "or0 (Fin (3602879701896397 / 9007199254740992)) = Fin (3602879701896397 / 9007199254740992)"
      "or0 (Fin (3602879701896397 / 18014398509481984)) = Fin (3602879701896397 / 18014398509481984)"
    by (simp_all add: or0_def truthy_def)
  have a: "js_div (js_add (js_add (Fin 0) (Fin 7)) (Fin 7)) (Fin 2) = Fin 7"
    by (simp add: rnd_int)
  have m: "median [Fin 7, Fin 7] = Fin 7"
    by (simp add: median_pair rnd_int)
  have r: "math_min [Fin 7, Fin 7] = Fin 7" "math_max [Fin 7, Fin 7] = Fin 7"
    by (simp_all add: math_min_def math_max_def)
  show ?thesis
    unfolding summary_computeValuation[OF equalPricesInputs_valid] equalPricesInputs_bridges
    by (simp add: summarise_def Let_def ebitdaSkipped_def DEFAULT_WEIGHTS_values t weighted_steps
        a m r js_gt_def
        del: js_add.simps js_mul.simps js_div.simps DEFAULT_WEIGHTS.simps)
qed

section \<open>Rounding does not cross a double\<close>

lemma is_double_decomp:
  assumes "is_double d"
  shows "d = of_int (rhe (d / 2 powi quantum \<bar>d\<bar>)) * 2 powi quantum \<bar>d\<bar>"
    and "d / 2 powi quantum \<bar>d\<bar> = of_int (rhe (d / 2 powi quantum \<bar>d\<bar>))"
    and "\<bar>d\<bar> < overflow_threshold"
proof -
  from assms have r: "rnd d = Fin d" by (simp add: is_double_def)
  show 1: "d = of_int (rhe (d / 2 powi quantum \<bar>d\<bar>)) * 2 powi quantum \<bar>d\<bar>"
    by (rule rnd_Fin_D(2)[OF r])
  show "\<bar>d\<bar> < overflow_threshold" by (rule rnd_Fin_D(1)[OF r])
  have "d / 2 powi quantum \<bar>d\<bar>
      = (of_int (rhe (d / 2 powi quantum \<bar>d\<bar>)) * 2 powi quantum \<bar>d\<bar>) / 2 powi quantum \<bar>d\<bar>"
    using 1 by simp
  then show "d / 2 powi quantum \<bar>d\<bar> = of_int (rhe (d / 2 powi quantum \<bar>d\<bar>))" by simp
qed

lemma quantum_mono:
  assumes "0 \<le> a" "a \<le> b" "b < 2 ^ 1024"
  shows "quantum a \<le> quantum b"
proof (rule ccontr)
  assume "\<not> quantum a \<le> quantum b"
  then have lt: "quantum b + 1 \<le> quantum a" by simp
  with quantum_range[of b] have "quantum a \<noteq> - 1074" by linarith
  with quantum_lower[of a] have "2 powi (quantum a + 52) \<le> a" by simp
  moreover have "b < 2 powi (quantum b + 53)" by (rule quantum_upper[OF assms(3)])
  moreover have "(2::real) powi (quantum b + 53) \<le> 2 powi (quantum a + 52)"
    using lt by (intro power_int_increasing) auto
  ultimately show False using assms(2) by linarith
qed

lemma rnd_lower:
  assumes d: "is_double d" "0 \<le> d" and x: "d \<le> x"
  shows "js_le (Fin d) (rnd x)"
proof (cases "overflow_threshold \<le> \<bar>x\<bar>")
  case True
  with x d(2) overflow_threshold_pos have "0 < x" by linarith
  with True show ?thesis by (simp add: rnd_def js_le_def)
next
  case False
  then have xt: "x < overflow_threshold" and x0: "0 \<le> x" using x d(2) by linarith+
  then have x1024: "x < 2 ^ 1024" using overflow_threshold_less by linarith
  define q where "q = quantum \<bar>x\<bar>"
  define qd where "qd = quantum \<bar>d\<bar>"
  define md where "md = rhe (d / 2 powi qd)"
  note dd = is_double_decomp[OF d(1), folded qd_def, folded md_def]
  have d1024: "\<bar>d\<bar> < 2 ^ 1024" using dd(3) overflow_threshold_less by linarith
  have qq: "qd \<le> q"
    unfolding q_def qd_def using d(2) x x1024 x0 by (intro quantum_mono) simp_all
  have r: "rnd x = Fin (of_int (rhe (x / 2 powi q)) * 2 powi q)"
    using False by (simp add: rnd_def Let_def q_def)
  have "d \<le> of_int (rhe (x / 2 powi q)) * 2 powi q"
  proof (cases "q = qd")
    case True
    have "d / 2 powi q \<le> x / 2 powi q" using x by (intro divide_right_mono) simp_all
    then have "of_int md \<le> x / 2 powi q" using dd(2) True by simp
    then have "md \<le> rhe (x / 2 powi q)" by (rule rhe_ge)
    then have "(of_int md :: real) \<le> of_int (rhe (x / 2 powi q))" by simp
    then have "(of_int md :: real) * 2 powi q \<le> of_int (rhe (x / 2 powi q)) * 2 powi q"
      by (intro mult_right_mono) simp_all
    then show ?thesis using dd(1) True by simp
  next
    case False
    with qq have lt: "qd + 1 \<le> q" by simp
    with quantum_range[of "\<bar>d\<bar>"] have "q \<noteq> - 1074" unfolding qd_def by linarith
    with quantum_lower[of "\<bar>x\<bar>"] have "2 powi (q + 52) \<le> x" using x0 by (simp add: q_def)
    then have "2 ^ 52 * 2 powi q \<le> x" by (simp add: power_int_add mult.commute)
    then have "2 ^ 52 \<le> x / 2 powi q" by (simp add: pos_le_divide_eq)
    then have "of_int (2 ^ 52) \<le> x / 2 powi q" by simp
    then have "2 ^ 52 \<le> rhe (x / 2 powi q)" by (rule rhe_ge)
    then have "(of_int (2 ^ 52) :: real) \<le> of_int (rhe (x / 2 powi q))"
      by (simp only: of_int_le_iff)
    then have "(of_int (2 ^ 52) :: real) * 2 powi q \<le> of_int (rhe (x / 2 powi q)) * 2 powi q"
      by (intro mult_right_mono) simp_all
    moreover have "(of_int (2 ^ 52) :: real) * 2 powi q = 2 powi (q + 52)"
      by (simp add: power_int_add mult.commute)
    moreover have "(2::real) powi (qd + 53) \<le> 2 powi (q + 52)"
      using lt by (intro power_int_increasing) auto
    moreover have "\<bar>d\<bar> < 2 powi (qd + 53)" unfolding qd_def by (rule quantum_upper[OF d1024])
    ultimately show ?thesis by linarith
  qed
  then show ?thesis by (simp add: r js_le_def less_le)
qed


lemma rnd_upper:
  assumes d: "is_double d" and x: "0 \<le> x" "x \<le> d"
  shows "js_le (rnd x) (Fin d)"
proof -
  define q where "q = quantum \<bar>x\<bar>"
  define qd where "qd = quantum \<bar>d\<bar>"
  define md where "md = rhe (d / 2 powi qd)"
  note dd = is_double_decomp[OF d(1), folded qd_def, folded md_def]
  have d0: "0 \<le> d" using x by linarith
  have dt: "d < overflow_threshold" using dd(3) by linarith
  have d1024: "d < 2 ^ 1024" using dt overflow_threshold_less by linarith
  have x1024: "x < 2 ^ 1024" using d1024 x by linarith
  have nov: "\<not> overflow_threshold \<le> \<bar>x\<bar>" using x dt by linarith
  have qq: "q \<le> qd"
    unfolding q_def qd_def using x d0 d1024 by (intro quantum_mono) simp_all
  have r: "rnd x = Fin (of_int (rhe (x / 2 powi q)) * 2 powi q)"
    using nov by (simp add: rnd_def Let_def q_def)
  have "of_int (rhe (x / 2 powi q)) * 2 powi q \<le> d"
  proof (cases "q = qd")
    case True
    have "x / 2 powi q \<le> d / 2 powi q" using x by (intro divide_right_mono) simp_all
    then have "x / 2 powi q \<le> of_int md" using dd(2) True by simp
    then have "rhe (x / 2 powi q) \<le> md" by (rule rhe_le)
    then have "(of_int (rhe (x / 2 powi q)) :: real) \<le> of_int md" by simp
    then have "(of_int (rhe (x / 2 powi q)) :: real) * 2 powi q \<le> of_int md * 2 powi q"
      by (intro mult_right_mono) simp_all
    then show ?thesis using dd(1) True by simp
  next
    case False
    with qq have lt: "q + 1 \<le> qd" by simp
    with quantum_range[of "\<bar>x\<bar>"] have "qd \<noteq> - 1074" unfolding q_def by linarith
    with quantum_lower[of "\<bar>d\<bar>"] have lo: "2 powi (qd + 52) \<le> d" using d0 by (simp add: qd_def)
    have "\<bar>x\<bar> < 2 powi (q + 53)" unfolding q_def by (rule quantum_upper) (use x1024 x in simp)
    then have "x < 2 ^ 53 * 2 powi q" using x by (simp add: power_int_add mult.commute)
    then have "x / 2 powi q < 2 ^ 53" by (simp add: pos_divide_less_eq)
    then have "x / 2 powi q \<le> of_int (2 ^ 53)" by simp
    then have "rhe (x / 2 powi q) \<le> 2 ^ 53" by (rule rhe_le)
    then have "(of_int (rhe (x / 2 powi q)) :: real) \<le> of_int (2 ^ 53)"
      by (simp only: of_int_le_iff)
    then have "(of_int (rhe (x / 2 powi q)) :: real) * 2 powi q \<le> of_int (2 ^ 53) * 2 powi q"
      by (intro mult_right_mono) simp_all
    moreover have "(of_int (2 ^ 53) :: real) * 2 powi q = 2 powi (q + 53)"
      by (simp add: power_int_add mult.commute)
    moreover have "(2::real) powi (q + 53) \<le> 2 powi (qd + 52)"
      using lt by (intro power_int_increasing) auto
    ultimately show ?thesis using lo by linarith
  qed
  then show ?thesis by (simp add: r js_le_def less_le)
qed

lemma is_double_twice:
  assumes d: "is_double d" and t: "\<bar>2 * d\<bar> < overflow_threshold"
  shows "is_double (2 * d)"
proof -
  define q where "q = quantum \<bar>d\<bar>"
  define m where "m = rhe (d / 2 powi q)"
  note dd = is_double_decomp[OF d, folded q_def, folded m_def]
  have r: "rnd d = Fin d" using d by (simp add: is_double_def)
  have m53: "\<bar>m\<bar> \<le> 2 ^ 53" using rnd_mantissa[OF r] by (simp add: m_def q_def)
  have qr: "- 1074 \<le> q" "q \<le> 971" using quantum_range[of "\<bar>d\<bar>"] by (simp_all add: q_def)
  show ?thesis
  proof (cases "q = 971")
    case False
    with qr have q1: "- 1074 \<le> q + 1" "q + 1 \<le> 971" by simp_all
    have e: "2 * d = of_int m * 2 powi (q + 1)"
      by (subst dd(1)) (simp add: power_int_add)
    from rnd_exact[OF q1 m53] t show ?thesis
      unfolding is_double_def e by simp
  next
    case True
    have e: "2 * d = of_int (2 * m) * 2 powi 971"
      by (subst dd(1)) (simp add: True)
    have "\<bar>2 * d\<bar> < 2 ^ 1024" using t overflow_threshold_less by linarith
    then have "\<bar>of_int (2 * m) :: real\<bar> * 2 powi 971 < 2 ^ 53 * 2 powi 971"
      unfolding e by (simp add: abs_mult)
    then have "\<bar>of_int (2 * m) :: real\<bar> < 2 ^ 53"
      by (simp only: mult_less_cancel_right) simp
    then have "\<bar>of_int (2 * m) :: real\<bar> \<le> of_int (2 ^ 53)" by simp
    then have "\<bar>2 * m\<bar> \<le> 2 ^ 53" by (simp only: of_int_abs[symmetric] of_int_le_iff)
    from rnd_exact[OF _ _ this, of 971] t show ?thesis
      unfolding is_double_def e by simp
  qed
qed

lemma js_le_Fin: "js_le (Fin a) (Fin b) \<longleftrightarrow> a \<le> b"
  by (auto simp: js_le_def)

lemma mean2_real:
  assumes a: "is_double a" "0 \<le> a" and b: "is_double b" and ab: "a \<le> b"
    and s: "rnd (a + b) = Fin s"
  shows "\<exists>m. rnd (s / 2) = Fin m \<and> a \<le> m \<and> m \<le> b"
proof -
  have b0: "0 \<le> b" using a(2) ab by linarith
  have t: "\<bar>a + b\<bar> < overflow_threshold" by (rule rnd_Fin_D(1)[OF s])
  have st: "\<bar>s\<bar> < overflow_threshold" by (rule rnd_result_bound[OF s])
  have "\<bar>2 * a\<bar> < overflow_threshold" using t a(2) ab by linarith
  from is_double_twice[OF a(1) this] have d2a: "is_double (2 * a)" .
  have "js_le (Fin (2 * a)) (rnd (a + b))"
    by (rule rnd_lower[OF d2a]) (use a(2) ab in simp_all)
  then have lo: "2 * a \<le> s" by (simp add: s js_le_Fin)
  have hi: "s \<le> 2 * b"
  proof (cases "\<bar>2 * b\<bar> < overflow_threshold")
    case True
    from is_double_twice[OF b this] have d2b: "is_double (2 * b)" .
    have "js_le (rnd (a + b)) (Fin (2 * b))"
      by (rule rnd_upper[OF d2b]) (use a(2) b0 ab in simp_all)
    then show ?thesis by (simp add: s js_le_Fin)
  next
    case False
    with b0 have "overflow_threshold \<le> 2 * b" by simp
    with st show ?thesis by linarith
  qed
  have s0: "0 \<le> s / 2" using lo a(2) by simp
  have l: "js_le (Fin a) (rnd (s / 2))"
    by (rule rnd_lower[OF a]) (use lo in simp)
  have u: "js_le (rnd (s / 2)) (Fin b)"
    by (rule rnd_upper[OF b s0]) (use hi in simp)
  from l u show ?thesis by (cases "rnd (s / 2)") (auto simp: js_le_Fin, auto simp: js_le_def)
qed

lemma js_mean2:
  assumes x: "price_ok x" and y: "price_ok y" and xy: "js_le x y"
    and nov: "isFinite x \<and> isFinite y \<longrightarrow> isFinite (js_add x y)"
  shows "js_le x (js_div (js_add x y) (Fin 2)) \<and> js_le (js_div (js_add x y) (Fin 2)) y"
proof (cases x; cases y)
  fix a b assume xy': "x = Fin a" "y = Fin b"
  with x y have d: "is_double a" "0 \<le> a" "is_double b"
    by (simp_all add: price_ok_def comparable_def is_number_def js_le_Fin)
  from xy xy' have ab: "a \<le> b" by (simp add: js_le_Fin)
  from nov xy' obtain s where s: "rnd (a + b) = Fin s" by (cases "rnd (a + b)") auto
  from mean2_real[OF d ab s] obtain m where "rnd (s / 2) = Fin m" "a \<le> m" "m \<le> b" by blast
  then show ?thesis by (simp add: xy' s js_le_Fin)
qed (use x y xy in \<open>simp_all add: price_ok_def comparable_def js_le_def\<close>)

lemma js_add_0_left: "comparable p \<Longrightarrow> js_add (Fin 0) p = p"
  by (cases p) (simp_all add: comparable_def is_number_def is_double_def)

lemma js_div_1: "comparable p \<Longrightarrow> js_div p (Fin 1) = p"
  by (cases p) (simp_all add: comparable_def is_number_def is_double_def)

lemma js_mul_1: "comparable p \<Longrightarrow> js_mul p (Fin 1) = p"
  by (cases p) (simp_all add: comparable_def is_number_def is_double_def)

section \<open>The summary statistics\<close>

lemma js_le_refl: "x \<noteq> NaN \<Longrightarrow> js_le x x"
  by (simp add: js_le_def)

lemma js_lt_le: "js_lt x y \<Longrightarrow> js_le x y"
  by (simp add: js_le_def)

lemma foldl_min:
  assumes "acc \<noteq> NaN" "list_all (\<lambda>x. x \<noteq> NaN) ps"
  shows "foldl (\<lambda>lowest x. if lowest = NaN \<or> x = NaN then NaN
                            else if js_lt x lowest then x else lowest) acc ps \<noteq> NaN
     \<and> (foldl (\<lambda>lowest x. if lowest = NaN \<or> x = NaN then NaN
                            else if js_lt x lowest then x else lowest) acc ps = acc
        \<or> foldl (\<lambda>lowest x. if lowest = NaN \<or> x = NaN then NaN
                            else if js_lt x lowest then x else lowest) acc ps \<in> set ps)
     \<and> js_le (foldl (\<lambda>lowest x. if lowest = NaN \<or> x = NaN then NaN
                            else if js_lt x lowest then x else lowest) acc ps) acc
     \<and> (\<forall>p\<in>set ps. js_le (foldl (\<lambda>lowest x. if lowest = NaN \<or> x = NaN then NaN
                            else if js_lt x lowest then x else lowest) acc ps) p)"
  using assms
proof (induction ps arbitrary: acc)
  case Nil
  then show ?case by (simp add: js_le_def)
next
  case (Cons x ps)
  define f where "f = (\<lambda>lowest x. if lowest = NaN \<or> x = NaN then NaN
                            else if js_lt x lowest then x else lowest)"
  define acc' where "acc' = (if js_lt x acc then x else acc)"
  from Cons.prems have x: "x \<noteq> NaN" and ps: "list_all (\<lambda>x. x \<noteq> NaN) ps" by simp_all
  have a': "acc' \<noteq> NaN" using x Cons.prems(1) by (simp add: acc'_def)
  have step: "foldl f acc (x # ps) = foldl f acc' ps"
    using x Cons.prems(1) by (simp add: f_def acc'_def)
  have le: "js_le acc' acc" "js_le acc' x"
    using x Cons.prems(1) js_le_total[of acc x] by (auto simp: acc'_def js_le_def)
  note IH = Cons.IH[OF a' ps, folded f_def]
  from IH have 1: "foldl f acc' ps \<noteq> NaN" and 2: "foldl f acc' ps = acc' \<or> foldl f acc' ps \<in> set ps"
    and 3: "js_le (foldl f acc' ps) acc'" and 4: "\<forall>p\<in>set ps. js_le (foldl f acc' ps) p"
    by simp_all
  have "js_le (foldl f acc' ps) acc" "js_le (foldl f acc' ps) x"
    using 3 le js_le_trans by blast+
  moreover have "foldl f acc' ps = acc \<or> foldl f acc' ps \<in> set (x # ps)"
    using 2 by (auto simp: acc'_def)
  ultimately show ?case
    unfolding f_def[symmetric] step using 1 4 by simp
qed

lemma math_min_props:
  assumes "ps \<noteq> []" "list_all (\<lambda>x. x \<noteq> NaN) ps"
  shows "math_min ps \<in> set ps" "\<forall>p\<in>set ps. js_le (math_min ps) p"
proof -
  note m = foldl_min[OF _ assms(2), of PInf, folded math_min_def]
  from m show 2: "\<forall>p\<in>set ps. js_le (math_min ps) p" by simp
  from assms(1) obtain p where p: "p \<in> set ps" by (cases ps) auto
  from m have "math_min ps = PInf \<or> math_min ps \<in> set ps" by simp
  then show "math_min ps \<in> set ps"
  proof
    assume e: "math_min ps = PInf"
    from 2 p have "js_le PInf p" unfolding e by blast
    then have "p = PInf" by (cases p) (auto simp: js_le_def)
    with p e show ?thesis by simp
  qed
qed


lemma foldl_max:
  assumes "acc \<noteq> NaN" "list_all (\<lambda>x. x \<noteq> NaN) ps"
  shows "foldl (\<lambda>highest x. if highest = NaN \<or> x = NaN then NaN
                            else if js_lt highest x then x else highest) acc ps \<noteq> NaN
     \<and> (foldl (\<lambda>highest x. if highest = NaN \<or> x = NaN then NaN
                            else if js_lt highest x then x else highest) acc ps = acc
        \<or> foldl (\<lambda>highest x. if highest = NaN \<or> x = NaN then NaN
                            else if js_lt highest x then x else highest) acc ps \<in> set ps)
     \<and> js_le acc (foldl (\<lambda>highest x. if highest = NaN \<or> x = NaN then NaN
                            else if js_lt highest x then x else highest) acc ps)
     \<and> (\<forall>p\<in>set ps. js_le p (foldl (\<lambda>highest x. if highest = NaN \<or> x = NaN then NaN
                            else if js_lt highest x then x else highest) acc ps))"
  using assms
proof (induction ps arbitrary: acc)
  case Nil
  then show ?case by (simp add: js_le_def)
next
  case (Cons x ps)
  define f where "f = (\<lambda>highest x. if highest = NaN \<or> x = NaN then NaN
                            else if js_lt highest x then x else highest)"
  define acc' where "acc' = (if js_lt acc x then x else acc)"
  from Cons.prems have x: "x \<noteq> NaN" and ps: "list_all (\<lambda>x. x \<noteq> NaN) ps" by simp_all
  have a': "acc' \<noteq> NaN" using x Cons.prems(1) by (simp add: acc'_def)
  have step: "foldl f acc (x # ps) = foldl f acc' ps"
    using x Cons.prems(1) by (simp add: f_def acc'_def)
  have le: "js_le acc acc'" "js_le x acc'"
    using x Cons.prems(1) js_le_total[of x acc] by (auto simp: acc'_def js_le_def)
  note IH = Cons.IH[OF a' ps, folded f_def]
  from IH have 1: "foldl f acc' ps \<noteq> NaN" and 2: "foldl f acc' ps = acc' \<or> foldl f acc' ps \<in> set ps"
    and 3: "js_le acc' (foldl f acc' ps)" and 4: "\<forall>p\<in>set ps. js_le p (foldl f acc' ps)"
    by simp_all
  have "js_le acc (foldl f acc' ps)" "js_le x (foldl f acc' ps)"
    using 3 le js_le_trans by blast+
  moreover have "foldl f acc' ps = acc \<or> foldl f acc' ps \<in> set (x # ps)"
    using 2 by (auto simp: acc'_def)
  ultimately show ?case
    unfolding f_def[symmetric] step using 1 4 by simp
qed

lemma math_max_props:
  assumes "ps \<noteq> []" "list_all (\<lambda>x. x \<noteq> NaN) ps"
  shows "math_max ps \<in> set ps" "\<forall>p\<in>set ps. js_le p (math_max ps)"
proof -
  note m = foldl_max[OF _ assms(2), of NInf, folded math_max_def]
  from m show 2: "\<forall>p\<in>set ps. js_le p (math_max ps)" by simp
  from assms(1) obtain p where p: "p \<in> set ps" by (cases ps) auto
  from m have "math_max ps = NInf \<or> math_max ps \<in> set ps" by simp
  then show "math_max ps \<in> set ps"
  proof
    assume e: "math_max ps = NInf"
    from 2 p have "js_le p NInf" unfolding e by blast
    then have "p = NInf" by (cases p) (auto simp: js_le_def)
    with p e show ?thesis by simp
  qed
qed

lemma summarise_fields:
  "avg (fst (summarise bs ws wt))
     = (if map PricePerShare (filter used bs) \<noteq> []
        then js_div (foldl js_add (Fin 0) (map PricePerShare (filter used bs)))
               (Fin (real (length (map PricePerShare (filter used bs)))))
        else NaN)"
  "priceRange (fst (summarise bs ws wt))
     = (if map PricePerShare (filter used bs) \<noteq> []
        then (math_min (map PricePerShare (filter used bs)),
              math_max (map PricePerShare (filter used bs)))
        else (NaN, NaN))"
  "weighted (fst (summarise bs ws wt))
     = (if filter used bs \<noteq> [] then
          (let totalWeight =
                 foldl (\<lambda>sum b. js_add sum (or0 (wt (method_id b)))) (Fin 0) (filter used bs)
           in if js_gt totalWeight (Fin 0) then
                foldl (\<lambda>sum b. js_add sum (js_mul (PricePerShare b)
                                   (js_div (or0 (wt (method_id b))) totalWeight)))
                  (Fin 0) (filter used bs)
              else avg (fst (summarise bs ws wt)))
        else NaN)"
  by (simp_all add: summarise_def Let_def split: prod.splits)

lemma math_min_single: "p \<noteq> NaN \<Longrightarrow> math_min [p] = p"
  by (cases p) (simp_all add: math_min_def)

lemma math_max_single: "p \<noteq> NaN \<Longrightarrow> math_max [p] = p"
  by (cases p) (simp_all add: math_max_def)

lemma math_min_pair: "a \<noteq> NaN \<Longrightarrow> b \<noteq> NaN \<Longrightarrow> math_min [a, b] = (if js_lt b a then b else a)"
  by (cases a; cases b) (simp_all add: math_min_def)

lemma math_max_pair: "a \<noteq> NaN \<Longrightarrow> b \<noteq> NaN \<Longrightarrow> math_max [a, b] = (if js_lt a b then b else a)"
  by (cases a; cases b) (simp_all add: math_max_def)

lemma js_lt_antisym: "x \<noteq> NaN \<Longrightarrow> y \<noteq> NaN \<Longrightarrow> \<not> js_lt x y \<Longrightarrow> \<not> js_lt y x \<Longrightarrow> x = y"
  by (cases x; cases y) auto

lemma stats_single:
  assumes "price_ok p"
  shows "js_div (foldl js_add (Fin 0) [p]) (Fin (real (length [p]))) = p"
    and "median [p] = p" and "math_min [p] = p" and "math_max [p] = p"
  using assms
  by (simp_all add: price_ok_def js_add_0_left js_div_1 median_single math_min_single
      math_max_single comparable_def)

lemma stats_pair:
  assumes a: "price_ok a" and b: "price_ok b"
    and nov: "isFinite a \<and> isFinite b \<longrightarrow> isFinite (js_add a b)"
  shows "in_range (math_min [a, b], math_max [a, b])
           (js_div (foldl js_add (Fin 0) [a, b]) (Fin (real (length [a, b]))))"
    and "in_range (math_min [a, b], math_max [a, b]) (median [a, b])"
proof -
  from a b have na: "a \<noteq> NaN" "b \<noteq> NaN" and ca: "comparable a"
    by (simp_all add: price_ok_def comparable_def)
  have e: "js_div (foldl js_add (Fin 0) [a, b]) (Fin (real (length [a, b])))
      = js_div (js_add a b) (Fin 2)"
    by (simp add: js_add_0_left[OF ca])
  have "in_range (math_min [a, b], math_max [a, b]) (js_div (js_add a b) (Fin 2))"
  proof (cases "js_lt a b")
    case True
    then have nba: "\<not> js_lt b a" by (cases a; cases b) auto
    from js_mean2[OF a b js_lt_le[OF True] nov] True nba show ?thesis
      by (simp add: in_range_def math_min_pair[OF na] math_max_pair[OF na])
  next
    case False
    show ?thesis
    proof (cases "js_lt b a")
      case True
      from nov have nov': "isFinite b \<and> isFinite a \<longrightarrow> isFinite (js_add b a)"
        by (simp add: js_add_commute[of b a])
      from js_mean2[OF b a js_lt_le[OF True] nov'] True False show ?thesis
        by (simp add: in_range_def math_min_pair[OF na] math_max_pair[OF na]
            js_add_commute[of b a])
    next
      case nba: False
      from js_lt_antisym[OF na False nba] have ab: "a = b" .
      from nov have nov': "isFinite a \<and> isFinite a \<longrightarrow> isFinite (js_add a a)"
        by (simp add: ab)
      have mm: "math_min [a, b] = a" "math_max [a, b] = a"
        using False nba by (simp_all only: math_min_pair[OF na] math_max_pair[OF na] if_False)
      from js_mean2[OF a a js_le_refl[OF na(1)] nov'] show ?thesis
        unfolding mm in_range_def by (simp add: ab[symmetric])
    qed
  qed
  then show "in_range (math_min [a, b], math_max [a, b])
           (js_div (foldl js_add (Fin 0) [a, b]) (Fin (real (length [a, b]))))"
    and "in_range (math_min [a, b], math_max [a, b]) (median [a, b])"
    by (simp_all only: e median_pair)
qed

lemma weighted_single:
  assumes p: "comparable p" and w: "is_number w" "w \<noteq> PInf"
    and v: "PricePerShare v = p" "wt (method_id v) = w"
  shows "(let totalWeight = foldl (\<lambda>sum b. js_add sum (or0 (wt (method_id b)))) (Fin 0) [v]
          in if js_gt totalWeight (Fin 0) then
               foldl (\<lambda>sum b. js_add sum (js_mul (PricePerShare b)
                                  (js_div (or0 (wt (method_id b))) totalWeight)))
                 (Fin 0) [v]
             else p) = p"
proof -
  have o: "is_number (or0 w)" "or0 w \<noteq> PInf" "or0 w \<noteq> NaN"
    using w by (auto simp: or0_def truthy_def)
  show ?thesis
  proof (cases "or0 w")
    case (Fin x)
    with o(1) have dx: "rnd x = Fin x" by (simp add: is_number_def is_double_def)
    have t: "js_add (Fin 0) (or0 w) = Fin x" by (simp add: Fin dx)
    show ?thesis
    proof (cases "0 < x")
      case True
      then have d1: "js_div (Fin x) (Fin x) = Fin 1" by (simp add: rnd_int)
      have t': "js_add (Fin 0) (Fin x) = Fin x" by (simp add: dx)
      have g: "js_gt (Fin x) (Fin 0)" using True by (simp add: js_gt_def)
      show ?thesis
        by (simp add: v Fin t' d1 g Let_def js_mul_1[OF p] js_add_0_left[OF p]
            del: js_add.simps js_div.simps js_mul.simps)
    next
      case False
      then show ?thesis by (simp add: v Fin dx Let_def js_gt_def)
    qed
  next
    case NInf
    then show ?thesis by (simp add: v js_gt_def)
  qed (use o in simp_all)
qed

lemma is_number_DEFAULT_WEIGHTS [simp]: "is_number (DEFAULT_WEIGHTS m)"
  by (cases m) simp_all

lemma is_number_mergeWeights:
  assumes "wellformed i"
  shows "is_number (mergeWeights i m)"
proof (cases "weights i")
  case None
  then show ?thesis by (simp add: mergeWeights_def)
next
  case (Some ws)
  with assms have "is_number_opt (ws m)"
    by (cases m) (simp_all add: wellformed_def)
  with Some show ?thesis
    by (simp add: mergeWeights_def is_number_opt_def split: option.splits)
qed

lemma is_number_weight_table:
  assumes "wellformed i"
  shows "is_number (snd (snd (buildBridges rt i)) m)"
  unfolding buildBridges_weights using is_number_mergeWeights[OF assms] by simp

lemma default_weight_table_finite:
  assumes "weights i = None"
  shows "snd (snd (buildBridges rt i)) m \<noteq> PInf"
proof -
  have w: "mergeWeights i = DEFAULT_WEIGHTS"
    by (rule ext) (simp add: mergeWeights_def assms)
  have "js_add (DEFAULT_WEIGHTS EV_Sales) (DEFAULT_WEIGHTS EV_EBITDA) \<noteq> PInf"
    unfolding DEFAULT_WEIGHTS_values by (simp add: rnd_def overflow_threshold_def Let_def)
  then show ?thesis
    unfolding buildBridges_weights w
    by (cases m) (simp_all add: DEFAULT_WEIGHTS_values del: DEFAULT_WEIGHTS.simps)
qed

lemma used_prices_ok:
  assumes v: "fst (validateInputs rt i)" and w: "wellformed i"
  shows "list_all price_ok (map PricePerShare (filter used (bridges (computeValuation rt i))))"
proof -
  have "js_le (Fin 0) (PricePerShare b)"
    if b: "b \<in> set (bridges (computeValuation rt i))" and u: "used b" for b
  proof (cases "method_id b = P_E")
    case True
    with used_bridge_price[OF v b u] show ?thesis by (auto simp: js_le_def)
  next
    case False
    with used_bridge_price[OF v b u] obtain s where s: "0 < s" "js_lt (Fin 0) (Equity b)"
        "PricePerShare b = js_div (Equity b) (Fin s)" by auto
    from js_div_nonneg(1)[OF s(2) s(1)] s(3) show ?thesis by simp
  qed
  with used_prices_comparable[OF v w] show ?thesis
    by (auto simp: list_all_iff price_ok_def)
qed

lemma median_odd_mem:
  assumes "odd (length ps)"
  shows "median ps \<in> set ps"
proof -
  from assms have ne: "ps \<noteq> []" by auto
  have "length ps div 2 < length (array_sort (\<lambda>a b. js_sub a b) ps)" using ne by simp
  then have "array_sort (\<lambda>a b. js_sub a b) ps ! (length ps div 2)
      \<in> set (array_sort (\<lambda>a b. js_sub a b) ps)" by (rule nth_mem)
  also have "set (array_sort (\<lambda>a b. js_sub a b) ps) = set ps"
    using mset_array_sort[of "\<lambda>a b. js_sub a b" ps] by (metis set_mset_mset)
  finally show ?thesis
    using assms ne by (simp add: median_def Let_def odd_iff_mod_2_eq_one)
qed

lemma limitedInputs_valid: "fst (validateInputs rt limitedInputs)"
  by (simp add: validateInputs_def limitedInputs_def js_le_def js_gt_def
      truthy_opt_def truthy_def)

lemma limitedInputs_wellformed: "wellformed limitedInputs"
  by (simp add: wellformed_def limitedInputs_def is_number_opt_def is_number_def is_double_def
      rnd_int)

lemma equalPricesInputs_wellformed: "wellformed equalPricesInputs"
  by (simp add: wellformed_def equalPricesInputs_def is_number_opt_def is_number_def
      is_double_def rnd_int)

lemma limitedInputs_bridges:
  "fst (buildBridges rt limitedInputs) =
     [\<lparr>method_id = EV_Sales, EV = Fin 3000000000, Equity = Fin 2000000000,
        PricePerShare = Fin 2000, used = True, skipReason = None\<rparr>,
      ebitdaSkipped,
      \<lparr>method_id = P_E, EV = NaN, Equity = NaN, PricePerShare = NaN, used = False,
        skipReason = Some ''No valid P/E price provided''\<rparr>]"
  unfolding buildBridges_eq Let_def
  by (simp add: limitedInputs_def positive_opt_def addBridge_def Let_def js_gt_def js_le_def
      js_sub_def rnd_int)

section \<open>The fixtures hold doubles\<close>

lemma is_double_2_1023: "is_double (2 ^ 1023)" "is_double (- (2 ^ 1023))"
proof -
  have e: "(2::real) ^ 1023 = of_int (2 ^ 52) * 2 powi 971" by simp
  have t: "\<bar>of_int (2 ^ 52) * 2 powi 971 :: real\<bar> < overflow_threshold"
    by (simp add: overflow_threshold_def)
  have "rnd (of_int (2 ^ 52) * 2 powi 971) = Fin (of_int (2 ^ 52) * 2 powi 971)"
    by (rule rnd_exact[OF _ _ _ t]) simp_all
  then show 1: "is_double (2 ^ 1023)" unfolding is_double_def e .
  then show "is_double (- (2 ^ 1023))"
    unfolding is_double_def rnd_minus by simp
qed

lemma overflowInputs_wellformed: "wellformed overflowInputs"
  using is_double_2_1023[unfolded is_double_def]
  by (simp add: wellformed_def overflowInputs_def is_number_opt_def is_number_def
      is_double_def rnd_int)

lemma standard_variants_wellformed:
  "wellformed zeroPriceInputs" "wellformed infiniteEbitdaInputs" "wellformed zeroSalesInputs"
  "wellformed negativeEbitdaInputs" "wellformed highDebtInputs"
  by (simp_all add: wellformed_def zeroPriceInputs_def infiniteEbitdaInputs_def
      zeroSalesInputs_def negativeEbitdaInputs_def highDebtInputs_def limitedInputs_def
      standardInputs_def is_number_opt_def is_number_def is_double_def rnd_int)

section \<open>The mean of two doubles\<close>

text \<open>
  A sum of two doubles below \<open>2 ^ - 1021\<close> is exact, and above that halving a double
  is exact: \<^verbatim>\<open>(a + b) / 2\<close> is the arithmetic mean rounded once, unless the sum
  overflows.
\<close>

lemma small_sum_exact:
  assumes a: "is_double a" and b: "is_double b" and s: "\<bar>a + b\<bar> < 2 powi (- 1021)"
  shows "is_double (a + b)"
proof -
  from is_double_grid[OF a] obtain ka :: int where ka: "a = of_int ka * 2 powi (- 1074)" by blast
  from is_double_grid[OF b] obtain kb :: int where kb: "b = of_int kb * 2 powi (- 1074)" by blast
  have e: "a + b = of_int (ka + kb) * 2 powi (- 1074)"
    by (simp add: ka kb algebra_simps)
  have p: "(2::real) powi (- 1021) = 2 ^ 53 * 2 powi (- 1074)"
    by (simp add: power_int_minus_left divide_simps)
  have "\<bar>of_int (ka + kb) * 2 powi (- 1074) :: real\<bar> < 2 ^ 53 * 2 powi (- 1074)"
    using s unfolding e p .
  then have "\<bar>of_int (ka + kb) :: real\<bar> * 2 powi (- 1074) < 2 ^ 53 * 2 powi (- 1074)"
    by (simp add: abs_mult)
  moreover have pos: "(0::real) < 2 powi (- 1074)" by simp
  ultimately have "\<bar>of_int (ka + kb) :: real\<bar> < 2 ^ 53"
    using mult_less_cancel_right_pos[OF pos] by blast
  then have "\<bar>of_int (ka + kb) :: real\<bar> < of_int (2 ^ 53)" by simp
  then have "\<bar>ka + kb\<bar> < 2 ^ 53"
    by (simp only: of_int_abs[symmetric] of_int_less_iff)
  then have m: "\<bar>ka + kb\<bar> \<le> 2 ^ 53" by simp
  have "(2::real) powi (- 1021) < overflow_threshold"
    by (simp add: overflow_threshold_def power_int_minus_left divide_simps)
  then have t: "\<bar>of_int (ka + kb) * 2 powi (- 1074) :: real\<bar> < overflow_threshold"
    using s unfolding e by linarith
  have "rnd (of_int (ka + kb) * 2 powi (- 1074)) = Fin (of_int (ka + kb) * 2 powi (- 1074))"
    by (rule rnd_exact[OF _ _ m t]) simp_all
  then show ?thesis unfolding is_double_def e .
qed

lemma rnd_half:
  assumes t: "\<bar>x\<bar> < overflow_threshold" and n: "2 powi (- 1021) \<le> \<bar>x\<bar>"
    and s: "rnd x = Fin s"
  shows "rnd (x / 2) = Fin (s / 2)"
proof -
  define q where "q = quantum \<bar>x\<bar>"
  have qr: "- 1074 \<le> q" "q \<le> 971" using quantum_range[of "\<bar>x\<bar>"] by (simp_all add: q_def)
  have x1024: "\<bar>x\<bar> < 2 ^ 1024" using t overflow_threshold_less by linarith
  have up: "\<bar>x\<bar> < 2 powi (q + 53)" using quantum_upper[OF x1024] by (simp add: q_def)
  have "(2::real) powi (- 1021) < 2 powi (q + 53)" using n up by linarith
  have "- 1021 < q + 53"
  proof (rule ccontr)
    assume "\<not> - 1021 < q + 53"
    then have "q + 53 \<le> - 1021" by simp
    then have "(2::real) powi (q + 53) \<le> 2 powi (- 1021)"
      by (intro power_int_increasing) auto
    with \<open>(2::real) powi (- 1021) < 2 powi (q + 53)\<close> show False by linarith
  qed
  then have q1: "- 1073 \<le> q" by simp
  with quantum_lower[of "\<bar>x\<bar>"] have lo: "2 powi (q + 52) \<le> \<bar>x\<bar>" by (simp add: q_def)
  have h1: "\<bar>x / 2\<bar> < 2 powi (q - 1 + 53)"
  proof -
    have "(2::real) powi (q + 53) = 2 * 2 powi (q - 1 + 53)"
      by (simp add: power_int_add power_int_diff)
    with up show ?thesis by simp
  qed
  have h2: "2 powi (q - 1 + 52) \<le> \<bar>x / 2\<bar>"
  proof -
    have "(2::real) powi (q + 52) = 2 * 2 powi (q - 1 + 52)"
      by (simp add: power_int_add power_int_diff)
    with lo show ?thesis by simp
  qed
  have h3: "\<bar>x / 2\<bar> < overflow_threshold" using t by simp
  have d: "x / 2 / 2 powi (q - 1) = x / 2 powi q"
    by (simp add: power_int_diff)
  have "rnd (x / 2) = Fin (of_int (rhe (x / 2 / 2 powi (q - 1))) * 2 powi (q - 1))"
    by (rule rnd_eval[OF _ _ h1 _ h3]) (use qr q1 h2 in simp_all)
  also have "of_int (rhe (x / 2 / 2 powi (q - 1))) * 2 powi (q - 1)
      = (of_int (rhe (x / 2 powi q)) * 2 powi q) / (2::real)"
    unfolding d by (simp add: power_int_diff)
  also have "of_int (rhe (x / 2 powi q)) * 2 powi q = s"
    using rnd_Fin_D(2)[OF s] by (simp add: q_def)
  finally show ?thesis .
qed

lemma js_mean_rounded:
  assumes a: "is_double a" and b: "is_double b" and t: "\<bar>a + b\<bar> < overflow_threshold"
  shows "js_div (js_add (Fin a) (Fin b)) (Fin 2) = rnd ((a + b) / 2)"
proof (cases "\<bar>a + b\<bar> < 2 powi (- 1021)")
  case True
  from small_sum_exact[OF a b True] have "rnd (a + b) = Fin (a + b)" by (simp add: is_double_def)
  then show ?thesis by simp
next
  case False
  then have n: "2 powi (- 1021) \<le> \<bar>a + b\<bar>" by simp
  from t obtain s where s: "rnd (a + b) = Fin s"
    by (cases "rnd (a + b)") (auto simp: rnd_def Let_def split: if_splits)
  from rnd_half[OF t n s] have h: "rnd ((a + b) / 2) = Fin (s / 2)" .
  from rnd_idem[OF h] have "rnd (s / 2) = Fin (s / 2)" .
  then show ?thesis by (simp add: s h)
qed

lemma median_even_mean:
  assumes ne: "xs \<noteq> []" and c: "list_all comparable xs" and ev: "even (length xs)"
    and a: "array_sort (\<lambda>a b. js_sub a b) xs ! (length xs div 2 - 1) = Fin a"
    and b: "array_sort (\<lambda>a b. js_sub a b) xs ! (length xs div 2) = Fin b"
    and t: "\<bar>a + b\<bar> < overflow_threshold"
  shows "median xs = rnd ((a + b) / 2)"
proof -
  let ?s = "array_sort (\<lambda>a b. js_sub a b) xs"
  have l: "0 < length xs" using ne by simp
  with ev have l2: "2 \<le> length xs" by presburger
  have i1: "length xs div 2 - 1 < length ?s" and i2: "length xs div 2 < length ?s"
    using l2 by simp_all
  have "set ?s = set xs" using mset_array_sort[of "\<lambda>a b. js_sub a b" xs] by (rule mset_eq_setD)
  then have m: "?s ! k \<in> set xs" if "k < length ?s" for k using that nth_mem by blast
  have "Fin a \<in> set xs" "Fin b \<in> set xs"
    using m[OF i1] m[OF i2] unfolding a b .
  with c have "comparable (Fin a)" "comparable (Fin b)"
    by (simp_all add: list_all_iff)
  then have d: "is_double a" "is_double b" by (simp_all add: comparable_def is_number_def)
  have "median xs = js_div (js_add (Fin a) (Fin b)) (Fin 2)"
    using ne ev a by (simp add: median_def Let_def b del: js_add.simps js_div.simps)
  then show ?thesis by (simp only: js_mean_rounded[OF d t])
qed


section \<open>Prices at the edge of the range, and a tie\<close>

lemma hugePricesInputs_valid: "fst (validateInputs rt hugePricesInputs)"
  by (simp add: validateInputs_def hugePricesInputs_def js_le_def js_gt_def
      truthy_opt_def truthy_def)

lemma hugePricesInputs_wellformed: "wellformed hugePricesInputs"
  using is_double_2_1023[unfolded is_double_def]
  by (simp add: wellformed_def hugePricesInputs_def is_number_opt_def is_number_def
      is_double_def rnd_int)

lemma hugePricesInputs_prices:
  "map PricePerShare (filter used (fst (buildBridges rt hugePricesInputs)))
     = [Fin (2 ^ 1023), Fin (2 ^ 1023)]"
  unfolding buildBridges_eq Let_def
  using is_double_2_1023[unfolded is_double_def]
  by (simp add: hugePricesInputs_def positive_opt_def addBridge_def Let_def js_gt_def js_le_def
      js_sub_def ebitdaSkipped_def)

lemma median_huge: "median [Fin (2 ^ 1023), Fin (2 ^ 1023)] = PInf"
  by (simp add: median_pair rnd_def overflow_threshold_def)

lemma is_double_succ_1: "is_double (1 + 2 powi (- 52))"
proof -
  have e: "(1::real) + 2 powi (- 52) = of_int (2 ^ 52 + 1) * 2 powi (- 52)"
    by (simp add: power_int_minus_left divide_simps)
  have t: "\<bar>of_int (2 ^ 52 + 1) * 2 powi (- 52) :: real\<bar> < overflow_threshold"
    unfolding e[symmetric] by (simp add: overflow_threshold_def power_int_minus_left)
  have "rnd (of_int (2 ^ 52 + 1) * 2 powi (- 52)) = Fin (of_int (2 ^ 52 + 1) * 2 powi (- 52))"
    by (rule rnd_exact[OF _ _ _ t]) simp_all
  then show ?thesis unfolding is_double_def e .
qed

lemma median_tie: "median [Fin 1, Fin (1 + 2 powi (- 52))] = Fin 1"
proof -
  have "rnd (1 + (1 + 2 powi (- 52))) = Fin (of_int (2 ^ 52) * 2 powi (- 51))"
    by (rule rnd_eval_at) (simp_all add: rhe_def power_int_minus_left divide_simps)
  then have "rnd (1 + (1 + 2 powi (- 52))) = Fin 2"
    by (simp add: power_int_minus_left)
  then show ?thesis
    by (simp add: median_pair rnd_int del: js_add.simps) (simp add: rnd_int)
qed


section \<open>The EV/EBITDA special case\<close>

text \<open>
  A defined EV/EBITDA entry that fails \<^verbatim>\<open>evEbitda > 0\<close> (zero, negative,
  \<open>-Infinity\<close> or NaN) gets the unused row with skip reason
  \<^verbatim>\<open>EBITDA <= 0 or invalid EV\<close> and the skip warning, once. If the EV/Sales bridge
  is used, the EV/Sales weight becomes its sum with the EV/EBITDA weight, the EV/EBITDA
  weight becomes 0 and the reweighting warning follows the skip warning; otherwise the
  weight table is unchanged and no reweighting warning is emitted. The test suite's
  case is an EV/EBITDA figure of -1,000,000,000.
\<close>

lemma ebitda_special_case:
  "fst (validateInputs rt i) \<and> evByMethod i EV_EBITDA = Some v \<and> \<not> js_gt v (Fin 0)
   \<longrightarrow> find (\<lambda>b. method_id b = EV_EBITDA) (bridges (computeValuation rt i)) = Some ebitdaSkipped
     \<and> used ebitdaSkipped = False
     \<and> skipReason ebitdaSkipped = Some ''EBITDA <= 0 or invalid EV''
     \<and> count_list (warnings (computeValuation rt i)) ebitdaSkipWarning = 1
     \<and> (if (case find (\<lambda>b. method_id b = EV_Sales) (bridges (computeValuation rt i)) of
               None \<Rightarrow> False | Some b \<Rightarrow> used b)
        then snd (snd (buildBridges rt i))
               = (mergeWeights i)
                   (EV_Sales := js_add (mergeWeights i EV_Sales) (mergeWeights i EV_EBITDA),
                    EV_EBITDA := Fin 0)
             \<and> prefix [ebitdaSkipWarning, reweightWarning] (warnings (computeValuation rt i))
             \<and> count_list (warnings (computeValuation rt i)) reweightWarning = 1
        else snd (snd (buildBridges rt i)) = mergeWeights i
             \<and> count_list (warnings (computeValuation rt i)) reweightWarning = 0)"
proof (intro impI)
  assume h: "fst (validateInputs rt i) \<and> evByMethod i EV_EBITDA = Some v \<and> \<not> js_gt v (Fin 0)"
  then have v: "fst (validateInputs rt i)" and ev: "evByMethod i EV_EBITDA = Some v"
    and np: "\<not> positive_opt (evByMethod i EV_EBITDA)"
    by (simp_all add: positive_opt_def)
  define A where "A = addBridge rt i EV_Sales (evByMethod i EV_Sales) None ([], [])"
  have W: "fst (snd (buildBridges rt i))
      = snd A @ (if used (hd (fst A)) then [ebitdaSkipWarning, reweightWarning]
                 else [ebitdaSkipWarning])"
    unfolding buildBridges_warnings A_def using np ev by simp
  have T: "snd (snd (buildBridges rt i))
      = (if used (hd (fst A))
         then (mergeWeights i)
                (EV_Sales := js_add (mergeWeights i EV_Sales) (mergeWeights i EV_EBITDA),
                 EV_EBITDA := Fin 0)
         else mergeWeights i)"
    unfolding buildBridges_weights A_def using np ev by simp
  have S: "find (\<lambda>b. method_id b = EV_Sales) (bridges (computeValuation rt i)) = Some (hd (fst A))"
    unfolding A_def by (rule sales_bridge_hd[OF v])
  have cA: "count_list (snd A) ebitdaSkipWarning = 0" "count_list (snd A) reweightWarning = 0"
    using addBridge_warnings_cases[of rt i EV_Sales "evByMethod i EV_Sales" None]
    unfolding A_def by auto
  have uA: "used (hd (fst A)) \<Longrightarrow> snd A = []"
    unfolding A_def by (rule addBridge_used_no_warning)
  have 1: "find (\<lambda>b. method_id b = EV_EBITDA) (bridges (computeValuation rt i)) = Some ebitdaSkipped"
    by (rule find_bridge_ebitda[OF v]) (simp add: np)
  have 2: "count_list (warnings (computeValuation rt i)) ebitdaSkipWarning = 1"
    using warnings_computeValuation[OF v] W cA by auto
  have 3: "count_list (warnings (computeValuation rt i)) reweightWarning
      = (if used (hd (fst A)) then 1 else 0)"
    using warnings_computeValuation[OF v] W cA by auto
  have 4: "prefix [ebitdaSkipWarning, reweightWarning] (warnings (computeValuation rt i))"
    if "used (hd (fst A))"
    using warnings_computeValuation[OF v] W uA[OF that] that by (auto simp: prefix_def)
  show "find (\<lambda>b. method_id b = EV_EBITDA) (bridges (computeValuation rt i)) = Some ebitdaSkipped
     \<and> used ebitdaSkipped = False
     \<and> skipReason ebitdaSkipped = Some ''EBITDA <= 0 or invalid EV''
     \<and> count_list (warnings (computeValuation rt i)) ebitdaSkipWarning = 1
     \<and> (if (case find (\<lambda>b. method_id b = EV_Sales) (bridges (computeValuation rt i)) of
               None \<Rightarrow> False | Some b \<Rightarrow> used b)
        then snd (snd (buildBridges rt i))
               = (mergeWeights i)
                   (EV_Sales := js_add (mergeWeights i EV_Sales) (mergeWeights i EV_EBITDA),
                    EV_EBITDA := Fin 0)
             \<and> prefix [ebitdaSkipWarning, reweightWarning] (warnings (computeValuation rt i))
             \<and> count_list (warnings (computeValuation rt i)) reweightWarning = 1
        else snd (snd (buildBridges rt i)) = mergeWeights i
             \<and> count_list (warnings (computeValuation rt i)) reweightWarning = 0)"
    using 1 2 3 4 T by (simp add: S ebitdaSkipped_def)
qed

lemma negativeEbitdaInputs_special_case:
  "fst (validateInputs stub_runtime negativeEbitdaInputs)
   \<and> evByMethod negativeEbitdaInputs EV_EBITDA = Some (Fin (- 1000000000))
   \<and> \<not> js_gt (Fin (- 1000000000)) (Fin 0)
   \<and> find (\<lambda>b. method_id b = EV_EBITDA) (bridges (computeValuation stub_runtime negativeEbitdaInputs))
       = Some ebitdaSkipped
   \<and> count_list (warnings (computeValuation stub_runtime negativeEbitdaInputs)) ebitdaSkipWarning = 1
   \<and> snd (snd (buildBridges stub_runtime negativeEbitdaInputs))
       = (mergeWeights negativeEbitdaInputs)
           (EV_Sales := js_add (DEFAULT_WEIGHTS EV_Sales) (DEFAULT_WEIGHTS EV_EBITDA),
            EV_EBITDA := Fin 0)
   \<and> prefix [ebitdaSkipWarning, reweightWarning]
        (warnings (computeValuation stub_runtime negativeEbitdaInputs))
   \<and> validMethodCount (summary (computeValuation stub_runtime negativeEbitdaInputs)) = 2"
proof -
  have e: "evByMethod negativeEbitdaInputs EV_EBITDA = Some (Fin (- 1000000000))"
    by (simp add: negativeEbitdaInputs_def)
  have w: "mergeWeights negativeEbitdaInputs = DEFAULT_WEIGHTS"
    by (rule ext) (simp add: mergeWeights_def negativeEbitdaInputs_def standardInputs_def)
  have b: "bridges (computeValuation stub_runtime negativeEbitdaInputs)
      = fst (buildBridges stub_runtime negativeEbitdaInputs)"
    by (simp add: bridges_computeValuation negativeEbitdaInputs_valid)
  have c: "validMethodCount (summary (computeValuation stub_runtime negativeEbitdaInputs)) = 2"
    by (simp add: summary_computeValuation negativeEbitdaInputs_valid summarise_count
        negativeEbitdaInputs_bridges ebitdaSkipped_def)
  from ebitda_special_case[of stub_runtime negativeEbitdaInputs "Fin (- 1000000000)"]
    negativeEbitdaInputs_valid[of stub_runtime] e c
  show ?thesis
    unfolding b negativeEbitdaInputs_bridges
    by (simp add: js_gt_def w ebitdaSkipped_def)
qed

lemma nanEbitdaInputs_valid: "fst (validateInputs rt nanEbitdaInputs)"
  by (simp add: validateInputs_def nanEbitdaInputs_def standardInputs_def js_le_def js_gt_def
      truthy_opt_def truthy_def)

lemma negInfEbitdaInputs_valid: "fst (validateInputs rt negInfEbitdaInputs)"
  by (simp add: validateInputs_def negInfEbitdaInputs_def standardInputs_def js_le_def js_gt_def
      truthy_opt_def truthy_def)

lemma invalid_variants_wellformed: "wellformed nanEbitdaInputs" "wellformed negInfEbitdaInputs"
  by (simp_all add: wellformed_def nanEbitdaInputs_def negInfEbitdaInputs_def
      standardInputs_def is_number_opt_def is_number_def is_double_def rnd_int)

lemma invalid_variants_sales:
  "find (\<lambda>b. method_id b = EV_Sales) (bridges (computeValuation rt nanEbitdaInputs))
     = Some \<lparr>method_id = EV_Sales, EV = Fin 5062000000, Equity = Fin 1272000000,
        PricePerShare = Fin 1272, used = True, skipReason = None\<rparr>"
  "find (\<lambda>b. method_id b = EV_Sales) (bridges (computeValuation rt negInfEbitdaInputs))
     = Some \<lparr>method_id = EV_Sales, EV = Fin 5062000000, Equity = Fin 1272000000,
        PricePerShare = Fin 1272, used = True, skipReason = None\<rparr>"
  by (rule find_bridge_sales[OF nanEbitdaInputs_valid],
      simp add: nanEbitdaInputs_def standardInputs_def addBridge_def js_gt_def js_le_def
        js_sub_def rnd_int)
    (rule find_bridge_sales[OF negInfEbitdaInputs_valid],
      simp add: negInfEbitdaInputs_def standardInputs_def addBridge_def js_gt_def js_le_def
        js_sub_def rnd_int)


section \<open>The negative-equity row and its warning\<close>

lemma negative_equity_bridge:
  "(fst (validateInputs rt i) \<and> (m = EV_Sales \<or> m = EV_EBITDA) \<and> evByMethod i m = Some ev
      \<and> isFinite ev \<and> js_gt ev (Fin 0) \<and> js_le (js_sub ev (netDebtYen i)) (Fin 0)
    \<longrightarrow> find (\<lambda>b. method_id b = m) (bridges (computeValuation rt i))
          = Some \<lparr>method_id = m, EV = ev, Equity = js_sub ev (netDebtYen i),
                  PricePerShare = Fin 0, used = False,
                  skipReason = Some (''Negative equity value: ''
                                     @ formatJPY rt (js_sub ev (netDebtYen i)))\<rparr>
        \<and> count_list (warnings (computeValuation rt i)) (negativeEquityWarning rt i m ev) = 1)
   \<and> (m \<noteq> P_E \<and> isFinite ev \<and> js_gt ev (Fin 0) \<and> js_le (js_sub ev (netDebtYen i)) (Fin 0)
    \<longrightarrow> addBridge rt i m (Some ev) dp (bs, ws)
          = (bs @ [\<lparr>method_id = m, EV = ev, Equity = js_sub ev (netDebtYen i),
                     PricePerShare = Fin 0, used = False,
                     skipReason = Some (''Negative equity value: ''
                                        @ formatJPY rt (js_sub ev (netDebtYen i)))\<rparr>],
             ws @ [negativeEquityWarning rt i m ev]))"
proof (intro conjI impI)
  assume h: "m \<noteq> P_E \<and> isFinite ev \<and> js_gt ev (Fin 0) \<and> js_le (js_sub ev (netDebtYen i)) (Fin 0)"
  then show "addBridge rt i m (Some ev) dp (bs, ws)
          = (bs @ [\<lparr>method_id = m, EV = ev, Equity = js_sub ev (netDebtYen i),
                     PricePerShare = Fin 0, used = False,
                     skipReason = Some (''Negative equity value: ''
                                        @ formatJPY rt (js_sub ev (netDebtYen i)))\<rparr>],
             ws @ [negativeEquityWarning rt i m ev])"
    by (subst addBridge_state) (simp add: addBridge_negative)
next
  assume h: "fst (validateInputs rt i) \<and> (m = EV_Sales \<or> m = EV_EBITDA)
      \<and> evByMethod i m = Some ev
      \<and> isFinite ev \<and> js_gt ev (Fin 0) \<and> js_le (js_sub ev (netDebtYen i)) (Fin 0)"
  then have v: "fst (validateInputs rt i)" and ev: "evByMethod i m = Some ev"
    and fin: "isFinite ev" and pos: "js_gt ev (Fin 0)"
    and eq: "js_le (js_sub ev (netDebtYen i)) (Fin 0)" and m: "m = EV_Sales \<or> m = EV_EBITDA"
    by simp_all
  from m show "find (\<lambda>b. method_id b = m) (bridges (computeValuation rt i))
          = Some \<lparr>method_id = m, EV = ev, Equity = js_sub ev (netDebtYen i),
                  PricePerShare = Fin 0, used = False,
                  skipReason = Some (''Negative equity value: ''
                                     @ formatJPY rt (js_sub ev (netDebtYen i)))\<rparr>"
  proof
    assume m: "m = EV_Sales"
    show ?thesis
      unfolding m
      by (rule find_bridge_sales[OF v]) (simp add: ev[unfolded m] addBridge_negative fin pos eq)
  next
    assume m: "m = EV_EBITDA"
    have "positive_opt (evByMethod i EV_EBITDA)"
      using ev pos by (simp add: m positive_opt_def)
    then show ?thesis
      unfolding m
      by (intro find_bridge_ebitda[OF v]) (simp add: ev[unfolded m] addBridge_negative fin pos eq)
  qed
  from m show "count_list (warnings (computeValuation rt i)) (negativeEquityWarning rt i m ev) = 1"
  proof
    assume m: "m = EV_Sales"
    have A: "addBridge rt i EV_Sales (evByMethod i EV_Sales) None ([], [])
        = ([\<lparr>method_id = EV_Sales, EV = ev, Equity = js_sub ev (netDebtYen i),
             PricePerShare = Fin 0, used = False,
             skipReason = Some (''Negative equity value: ''
                                @ formatJPY rt (js_sub ev (netDebtYen i)))\<rparr>],
           [negativeEquityWarning rt i EV_Sales ev])"
      by (simp add: ev[unfolded m] addBridge_negative fin pos eq)
    show ?thesis
      unfolding m
    proof (rule count_negative_warning[OF v])
      show "count_list (fst (snd (buildBridges rt i))) (negativeEquityWarning rt i EV_Sales ev) = 1"
        unfolding buildBridges_warnings A
        using addBridge_warnings_cases[of rt i EV_EBITDA "evByMethod i EV_EBITDA" None]
        by (auto simp: ebitdaSkipWarning_def[symmetric])
    qed
  next
    assume m: "m = EV_EBITDA"
    have p: "positive_opt (evByMethod i EV_EBITDA)"
      using ev pos by (simp add: m positive_opt_def)
    have B: "snd (addBridge rt i EV_EBITDA (evByMethod i EV_EBITDA) None ([], []))
        = [negativeEquityWarning rt i EV_EBITDA ev]"
      by (simp add: ev[unfolded m] addBridge_negative fin pos eq)
    show ?thesis
      unfolding m
    proof (rule count_negative_warning[OF v])
      show "count_list (fst (snd (buildBridges rt i))) (negativeEquityWarning rt i EV_EBITDA ev) = 1"
        unfolding buildBridges_warnings B
        using addBridge_warnings_cases[of rt i EV_Sales "evByMethod i EV_Sales" None] p
        by auto
    qed
  qed
qed

lemma negativeEquityWarning_text:
  "m = EV_Sales \<or> m = EV_EBITDA \<Longrightarrow> negativeEquityWarning rt i m ev =
     (if m = EV_Sales then ''EV/Sales'' else ''EV/EBITDA'') @ '': ''
     @ [CHR 0xE6, CHR 0xA0, CHR 0xAA, CHR 0xE4, CHR 0xB8, CHR 0xBB, CHR 0xE4, CHR 0xBE,
        CHR 0xA1, CHR 0xE5, CHR 0x80, CHR 0xA4, CHR 0xE3, CHR 0x81, CHR 0x8C, CHR 0xE8,
        CHR 0xB2, CHR 0xA0, CHR 0xE3, CHR 0x81, CHR 0xAB, CHR 0xE3, CHR 0x81, CHR 0xAA,
        CHR 0xE3, CHR 0x82, CHR 0x8A, CHR 0xE3, CHR 0x81, CHR 0xBE, CHR 0xE3, CHR 0x81,
        CHR 0x97, CHR 0xE3, CHR 0x81, CHR 0x9F]
     @ '' (EV: '' @ formatJPY rt ev @ '', ''
     @ [CHR 0xE3, CHR 0x83, CHR 0x8D, CHR 0xE3, CHR 0x83, CHR 0x83, CHR 0xE3, CHR 0x83,
        CHR 0x88, CHR 0xE8, CHR 0xB2, CHR 0xA0, CHR 0xE5, CHR 0x82, CHR 0xB5]
     @ '': '' @ formatJPY rt (netDebtYen i) @ '')''"
  by (auto simp: negativeEquityWarning_def ja_negative_equity_def ja_net_debt_def)


section \<open>Sensitivity scenarios\<close>

lemma truthy_opt_iff: "truthy_opt v \<longleftrightarrow> v \<noteq> None \<and> v \<noteq> Some (Fin 0) \<and> v \<noteq> Some NaN"
  by (auto simp: truthy_opt_def truthy_def split: option.splits)

lemma length_generateSensitivityScenarios:
  "length (generateSensitivityScenarios rt b nv mv)
     = 1 + 2 + 2 * length (filter (\<lambda>m. truthy_opt (evByMethod b m)) [EV_Sales, EV_EBITDA])
       + (if truthy_opt (pePrice b) then 2 else 0)"
  by (simp add: generateSensitivityScenarios_def Let_def length_methodScenarios
      length_peScenarios length_netDebtScenarios)

lemma rnd_tenth: "rnd (1 / 10) = Fin (3602879701896397 / 36028797018963968)"
  by (subst rnd_eval_at[where e = "- 56" and m = 7205759403792794])
    (simp_all add: rhe_def power_int_minus_left)

lemma ten_percent: "js_mul (rnd (1 / 10)) (Fin 100) = Fin 10"
  unfolding rnd_tenth js_mul.simps
  by (subst rnd_eval_at[where e = "- 49" and m = 5629499534213120])
    (simp_all add: rhe_def power_int_minus_left)

lemma toFixed0_10: "toFixed0 rt (Fin 10) = ''10''"
  by (simp add: toFixed0_def digits.simps)


section \<open>Claims\<close>

text \<open>
  C1. For every Inputs record: if validation passed, \<open>success\<close> equals "some bridge
  is used"; if validation failed, \<open>success\<close> is false, the bridge list is empty and
  the summary holds NaN for avg, median and weighted, the range (NaN, NaN), a method
  count of 0 and no used methods.
\<close>

theorem C1_success_invariant:
  "(fst (validateInputs rt i) \<longrightarrow>
      success (computeValuation rt i)
        = (0 < length (filter used (bridges (computeValuation rt i)))))
   \<and> (\<not> fst (validateInputs rt i) \<longrightarrow>
        success (computeValuation rt i) = False
      \<and> bridges (computeValuation rt i) = []
      \<and> summary (computeValuation rt i)
          = \<lparr>avg = NaN, medianValue = NaN, weighted = NaN, priceRange = (NaN, NaN),
             validMethodCount = 0, usedMethods = []\<rparr>)"
proof (cases "fst (validateInputs rt i)")
  case True
  then show ?thesis by (simp add: computeValuation_valid split: prod.splits)
next
  case False
  then show ?thesis by (simp add: computeValuation_invalid)
qed

theorem C1_success_invariant_witness:
  "fst (validateInputs stub_runtime standardInputs)
   \<and> success (computeValuation stub_runtime standardInputs)
       = (0 < length (filter used (bridges (computeValuation stub_runtime standardInputs))))
   \<and> \<not> fst (validateInputs stub_runtime invalidInputs)
   \<and> success (computeValuation stub_runtime invalidInputs) = False
   \<and> bridges (computeValuation stub_runtime invalidInputs) = []
   \<and> summary (computeValuation stub_runtime invalidInputs)
       = \<lparr>avg = NaN, medianValue = NaN, weighted = NaN, priceRange = (NaN, NaN),
          validMethodCount = 0, usedMethods = []\<rparr>"
  using C1_success_invariant[of stub_runtime standardInputs]
    C1_success_invariant[of stub_runtime invalidInputs]
    standardInputs_valid[of stub_runtime] invalidInputs_invalid[of stub_runtime]
  by simp

text \<open>
  C2. For validated inputs and an EV-based method whose EV figure is finite and
  positive with \<open>EV - netDebtYen > 0\<close> (as JavaScript computes the difference), the
  bridge of that method holds \<open>Equity = EV - netDebtYen\<close>,
  \<open>PricePerShare = Equity / sharesOutstanding\<close> and \<open>used = True\<close>. For the test
  suite's standard inputs the three prices are 1272, 1070 and 1234, all three bridges
  are used and \<open>validMethodCount = 3\<close>.
\<close>

theorem C2_used_bridge:
  "(fst (validateInputs rt i) \<and> (m = EV_Sales \<or> m = EV_EBITDA) \<and> evByMethod i m = Some ev
      \<and> isFinite ev \<and> js_gt ev (Fin 0) \<and> js_gt (js_sub ev (netDebtYen i)) (Fin 0)
    \<longrightarrow> find (\<lambda>b. method_id b = m) (bridges (computeValuation rt i))
          = Some \<lparr>method_id = m, EV = ev, Equity = js_sub ev (netDebtYen i),
                  PricePerShare = js_div (js_sub ev (netDebtYen i)) (sharesOutstanding i),
                  used = True, skipReason = None\<rparr>)
   \<and> map PricePerShare (bridges (computeValuation rt standardInputs))
       = [Fin 1272, Fin 1070, Fin 1234]
   \<and> map used (bridges (computeValuation rt standardInputs)) = [True, True, True]
   \<and> validMethodCount (summary (computeValuation rt standardInputs)) = 3"
proof (intro conjI impI)
  assume h: "fst (validateInputs rt i) \<and> (m = EV_Sales \<or> m = EV_EBITDA)
      \<and> evByMethod i m = Some ev
      \<and> isFinite ev \<and> js_gt ev (Fin 0) \<and> js_gt (js_sub ev (netDebtYen i)) (Fin 0)"
  then have v: "fst (validateInputs rt i)" and ev: "evByMethod i m = Some ev"
    and fin: "isFinite ev" and pos: "js_gt ev (Fin 0)"
    and eq: "\<not> js_le (js_sub ev (netDebtYen i)) (Fin 0)"
    by (simp_all add: js_gt_not_le)
  from h have "m = EV_Sales \<or> m = EV_EBITDA" by simp
  then show "find (\<lambda>b. method_id b = m) (bridges (computeValuation rt i))
          = Some \<lparr>method_id = m, EV = ev, Equity = js_sub ev (netDebtYen i),
                  PricePerShare = js_div (js_sub ev (netDebtYen i)) (sharesOutstanding i),
                  used = True, skipReason = None\<rparr>"
  proof
    assume m: "m = EV_Sales"
    show ?thesis
      unfolding m
      by (rule find_bridge_sales[OF v]) (simp add: ev[unfolded m] addBridge_used fin pos eq)
  next
    assume m: "m = EV_EBITDA"
    have "positive_opt (evByMethod i EV_EBITDA)"
      using ev pos by (simp add: m positive_opt_def)
    then show ?thesis
      unfolding m
      by (intro find_bridge_ebitda[OF v]) (simp add: ev[unfolded m] addBridge_used fin pos eq)
  qed
next
  show "map PricePerShare (bridges (computeValuation rt standardInputs))
       = [Fin 1272, Fin 1070, Fin 1234]"
    by (simp add: bridges_computeValuation standardInputs_valid standardInputs_bridges)
  show "map used (bridges (computeValuation rt standardInputs)) = [True, True, True]"
    by (simp add: bridges_computeValuation standardInputs_valid standardInputs_bridges)
  show "validMethodCount (summary (computeValuation rt standardInputs)) = 3"
    by (simp add: summary_computeValuation standardInputs_valid summarise_count
        standardInputs_bridges)
qed

theorem C2_used_bridge_witness:
  "fst (validateInputs stub_runtime standardInputs)
   \<and> evByMethod standardInputs EV_Sales = Some (Fin 5062000000)
   \<and> js_gt (js_sub (Fin 5062000000) (netDebtYen standardInputs)) (Fin 0)
   \<and> find (\<lambda>b. method_id b = EV_Sales) (bridges (computeValuation stub_runtime standardInputs))
       = Some \<lparr>method_id = EV_Sales, EV = Fin 5062000000, Equity = Fin 1272000000,
               PricePerShare = Fin 1272, used = True, skipReason = None\<rparr>"
proof -
  have e: "evByMethod standardInputs EV_Sales = Some (Fin 5062000000)"
      "netDebtYen standardInputs = Fin 3790000000" "sharesOutstanding standardInputs = Fin 1000000"
    by (simp_all add: standardInputs_def)
  have s: "js_sub (Fin 5062000000) (Fin 3790000000) = Fin 1272000000"
      "js_div (Fin 1272000000) (Fin 1000000) = Fin 1272"
    by (simp_all add: js_sub_def rnd_int)
  from C2_used_bridge[of stub_runtime standardInputs EV_Sales "Fin 5062000000"]
    standardInputs_valid[of stub_runtime]
  show ?thesis by (simp add: e s js_gt_def rnd_int)
qed

text \<open>
  C3. The special case is guarded by \<^verbatim>\<open>evEbitda !== undefined && evEbitda > 0\<close>,
  with no finiteness test. An EV/EBITDA entry of \<open>+Infinity\<close> is not a valid EV
  (\<^verbatim>\<open>Number.isFinite\<close> fails for it) but passes the guard: \<^verbatim>\<open>addBridge\<close> rejects
  it with the reason \<^verbatim>\<open>Invalid EV: Infinity\<close>, no warning is emitted and, although
  the EV/Sales bridge is used, the weights stay as they were. The same record with NaN
  or \<open>-Infinity\<close> in its place gets the row with the reason
  \<^verbatim>\<open>EBITDA <= 0 or invalid EV\<close>, the skip warning followed by the reweighting
  warning, and the EV/EBITDA weight moved to EV/Sales.
\<close>

theorem C3_infinite_ebitda:
  "wellformed infiniteEbitdaInputs
   \<and> fst (validateInputs stub_runtime infiniteEbitdaInputs)
   \<and> evByMethod infiniteEbitdaInputs EV_EBITDA = Some PInf
   \<and> \<not> isFinite PInf
   \<and> find (\<lambda>b. method_id b = EV_EBITDA)
        (bridges (computeValuation stub_runtime infiniteEbitdaInputs))
       = Some \<lparr>method_id = EV_EBITDA, EV = NaN, Equity = NaN, PricePerShare = NaN, used = False,
               skipReason = Some ''Invalid EV: Infinity''\<rparr>
   \<and> find (\<lambda>b. method_id b = EV_Sales)
        (bridges (computeValuation stub_runtime infiniteEbitdaInputs))
       = Some \<lparr>method_id = EV_Sales, EV = Fin 5062000000, Equity = Fin 1272000000,
               PricePerShare = Fin 1272, used = True, skipReason = None\<rparr>
   \<and> ebitdaSkipWarning \<notin> set (warnings (computeValuation stub_runtime infiniteEbitdaInputs))
   \<and> reweightWarning \<notin> set (warnings (computeValuation stub_runtime infiniteEbitdaInputs))
   \<and> snd (snd (buildBridges stub_runtime infiniteEbitdaInputs)) = DEFAULT_WEIGHTS
   \<and> wellformed nanEbitdaInputs
   \<and> fst (validateInputs stub_runtime nanEbitdaInputs)
   \<and> evByMethod nanEbitdaInputs EV_EBITDA = Some NaN
   \<and> find (\<lambda>b. method_id b = EV_EBITDA) (bridges (computeValuation stub_runtime nanEbitdaInputs))
       = Some \<lparr>method_id = EV_EBITDA, EV = NaN, Equity = NaN, PricePerShare = NaN, used = False,
               skipReason = Some ''EBITDA <= 0 or invalid EV''\<rparr>
   \<and> prefix [ebitdaSkipWarning, reweightWarning]
        (warnings (computeValuation stub_runtime nanEbitdaInputs))
   \<and> snd (snd (buildBridges stub_runtime nanEbitdaInputs))
       = DEFAULT_WEIGHTS
           (EV_Sales := js_add (DEFAULT_WEIGHTS EV_Sales) (DEFAULT_WEIGHTS EV_EBITDA),
            EV_EBITDA := Fin 0)
   \<and> wellformed negInfEbitdaInputs
   \<and> fst (validateInputs stub_runtime negInfEbitdaInputs)
   \<and> evByMethod negInfEbitdaInputs EV_EBITDA = Some NInf
   \<and> find (\<lambda>b. method_id b = EV_EBITDA)
        (bridges (computeValuation stub_runtime negInfEbitdaInputs))
       = Some \<lparr>method_id = EV_EBITDA, EV = NaN, Equity = NaN, PricePerShare = NaN, used = False,
               skipReason = Some ''EBITDA <= 0 or invalid EV''\<rparr>
   \<and> prefix [ebitdaSkipWarning, reweightWarning]
        (warnings (computeValuation stub_runtime negInfEbitdaInputs))
   \<and> snd (snd (buildBridges stub_runtime negInfEbitdaInputs))
       = DEFAULT_WEIGHTS
           (EV_Sales := js_add (DEFAULT_WEIGHTS EV_Sales) (DEFAULT_WEIGHTS EV_EBITDA),
            EV_EBITDA := Fin 0)"
proof -
  have w: "mergeWeights infiniteEbitdaInputs = DEFAULT_WEIGHTS"
      "mergeWeights nanEbitdaInputs = DEFAULT_WEIGHTS"
      "mergeWeights negInfEbitdaInputs = DEFAULT_WEIGHTS"
    by (rule ext; simp add: mergeWeights_def infiniteEbitdaInputs_def nanEbitdaInputs_def
        negInfEbitdaInputs_def standardInputs_def)+
  have e: "evByMethod infiniteEbitdaInputs EV_EBITDA = Some PInf"
      "evByMethod nanEbitdaInputs EV_EBITDA = Some NaN"
      "evByMethod negInfEbitdaInputs EV_EBITDA = Some NInf"
    by (simp_all add: infiniteEbitdaInputs_def nanEbitdaInputs_def negInfEbitdaInputs_def)
  have inf: "wellformed infiniteEbitdaInputs
   \<and> fst (validateInputs stub_runtime infiniteEbitdaInputs)
   \<and> evByMethod infiniteEbitdaInputs EV_EBITDA = Some PInf
   \<and> \<not> isFinite PInf
   \<and> find (\<lambda>b. method_id b = EV_EBITDA)
        (bridges (computeValuation stub_runtime infiniteEbitdaInputs))
       = Some \<lparr>method_id = EV_EBITDA, EV = NaN, Equity = NaN, PricePerShare = NaN, used = False,
               skipReason = Some ''Invalid EV: Infinity''\<rparr>
   \<and> find (\<lambda>b. method_id b = EV_Sales)
        (bridges (computeValuation stub_runtime infiniteEbitdaInputs))
       = Some \<lparr>method_id = EV_Sales, EV = Fin 5062000000, Equity = Fin 1272000000,
               PricePerShare = Fin 1272, used = True, skipReason = None\<rparr>
   \<and> ebitdaSkipWarning \<notin> set (warnings (computeValuation stub_runtime infiniteEbitdaInputs))
   \<and> reweightWarning \<notin> set (warnings (computeValuation stub_runtime infiniteEbitdaInputs))
   \<and> snd (snd (buildBridges stub_runtime infiniteEbitdaInputs)) = DEFAULT_WEIGHTS"
    using warnings_computeValuation[OF infiniteEbitdaInputs_valid[of stub_runtime]]
    by (auto simp: infiniteEbitdaInputs_valid bridges_computeValuation infiniteEbitdaInputs_bridges
        w e standard_variants_wellformed)
  have nan: "find (\<lambda>b. method_id b = EV_EBITDA)
        (bridges (computeValuation stub_runtime nanEbitdaInputs))
       = Some \<lparr>method_id = EV_EBITDA, EV = NaN, Equity = NaN, PricePerShare = NaN, used = False,
               skipReason = Some ''EBITDA <= 0 or invalid EV''\<rparr>
   \<and> prefix [ebitdaSkipWarning, reweightWarning]
        (warnings (computeValuation stub_runtime nanEbitdaInputs))
   \<and> snd (snd (buildBridges stub_runtime nanEbitdaInputs))
       = DEFAULT_WEIGHTS
           (EV_Sales := js_add (DEFAULT_WEIGHTS EV_Sales) (DEFAULT_WEIGHTS EV_EBITDA),
            EV_EBITDA := Fin 0)"
    using ebitda_special_case[of stub_runtime nanEbitdaInputs NaN]
      nanEbitdaInputs_valid[of stub_runtime]
    by (simp add: e w invalid_variants_sales js_gt_def ebitdaSkipped_def
        del: DEFAULT_WEIGHTS.simps js_add.simps)
  have ninf: "find (\<lambda>b. method_id b = EV_EBITDA)
        (bridges (computeValuation stub_runtime negInfEbitdaInputs))
       = Some \<lparr>method_id = EV_EBITDA, EV = NaN, Equity = NaN, PricePerShare = NaN, used = False,
               skipReason = Some ''EBITDA <= 0 or invalid EV''\<rparr>
   \<and> prefix [ebitdaSkipWarning, reweightWarning]
        (warnings (computeValuation stub_runtime negInfEbitdaInputs))
   \<and> snd (snd (buildBridges stub_runtime negInfEbitdaInputs))
       = DEFAULT_WEIGHTS
           (EV_Sales := js_add (DEFAULT_WEIGHTS EV_Sales) (DEFAULT_WEIGHTS EV_EBITDA),
            EV_EBITDA := Fin 0)"
    using ebitda_special_case[of stub_runtime negInfEbitdaInputs NInf]
      negInfEbitdaInputs_valid[of stub_runtime]
    by (simp add: e w invalid_variants_sales js_gt_def ebitdaSkipped_def
        del: DEFAULT_WEIGHTS.simps js_add.simps)
  from inf nan ninf show ?thesis
    by (simp only: e invalid_variants_wellformed nanEbitdaInputs_valid negInfEbitdaInputs_valid
        simp_thms)
qed

theorem C3_infinite_ebitda_witness:
  "map_option skipReason (find (\<lambda>b. method_id b = EV_EBITDA)
      (bridges (computeValuation stub_runtime infiniteEbitdaInputs)))
     = Some (Some ''Invalid EV: Infinity'')
   \<and> map_option skipReason (find (\<lambda>b. method_id b = EV_EBITDA)
      (bridges (computeValuation stub_runtime nanEbitdaInputs)))
     = Some (Some ''EBITDA <= 0 or invalid EV'')
   \<and> map_option skipReason (find (\<lambda>b. method_id b = EV_EBITDA)
      (bridges (computeValuation stub_runtime negInfEbitdaInputs)))
     = Some (Some ''EBITDA <= 0 or invalid EV'')
   \<and> snd (snd (buildBridges stub_runtime infiniteEbitdaInputs)) EV_EBITDA = DEFAULT_WEIGHTS EV_EBITDA
   \<and> snd (snd (buildBridges stub_runtime nanEbitdaInputs)) EV_EBITDA = Fin 0"
  using C3_infinite_ebitda by simp

text \<open>
  C4 (amended). The validator emits \<^verbatim>\<open>No valid valuation methods provided\<close> exactly
  when no entry of \<open>evByMethod\<close> is finite and positive and the P/E price is
  undefined, zero or NaN: the source tests \<^verbatim>\<open>!inputs.pePrice\<close>, so a defined price
  of 0 or NaN does not suppress the error (it is reported next to
  \<^verbatim>\<open>Invalid P/E price\<close>).
\<close>

theorem C4_no_methods_error:
  "(''No valid valuation methods provided'' \<in> set (snd (validateInputs rt i)))
     = (\<not> hasValidEv i \<and> (pePrice i = None \<or> pePrice i = Some (Fin 0) \<or> pePrice i = Some NaN))"
  unfolding no_methods_error_iff by (auto simp: truthy_opt_def truthy_def split: option.splits)

theorem C4_no_methods_error_witness:
  "''No valid valuation methods provided'' \<in> set (snd (validateInputs stub_runtime invalidInputs))"
  using C4_no_methods_error[of stub_runtime invalidInputs]
  by (simp add: invalidInputs_def hasValidEv_def)

text \<open>
  As stated, C4 fails: with an empty \<open>evByMethod\<close> and a P/E price of 0 the price
  is defined and the error is emitted all the same.
\<close>

theorem C4_counterexample:
  "wellformed zeroPriceInputs
   \<and> pePrice zeroPriceInputs = Some (Fin 0)
   \<and> \<not> ((''No valid valuation methods provided''
            \<in> set (snd (validateInputs stub_runtime zeroPriceInputs)))
          = (\<not> hasValidEv zeroPriceInputs \<and> pePrice zeroPriceInputs = None))"
  by (simp add: standard_variants_wellformed)
    (simp add: validateInputs_def zeroPriceInputs_def hasValidEv_def truthy_opt_def truthy_def
      js_le_def)

text \<open>
  C5. For an EV-based method with a finite positive EV figure whose equity
  \<open>EV - netDebtYen\<close> is at most zero, \<^verbatim>\<open>addBridge\<close> appends exactly one row, with
  \<open>used = False\<close>, a price of exactly 0, \<open>Equity\<close> equal to that equity and the
  skip reason \<^verbatim>\<open>Negative equity value: \<close> followed by the formatted equity, and
  exactly one warning: the method's name, a colon, the text of the source ("shareholder
  value became negative"), and in parentheses \<^verbatim>\<open>EV: \<close> with the formatted EV and
  the words for net debt with the formatted net debt. For validated inputs that row is
  the bridge of the method in the result, and that warning occurs exactly once among
  the result's warnings.
\<close>

theorem C5_negative_equity:
  "(m = EV_Sales \<or> m = EV_EBITDA) \<and> isFinite ev \<and> js_gt ev (Fin 0)
     \<and> js_le (js_sub ev (netDebtYen i)) (Fin 0)
   \<longrightarrow> addBridge rt i m (Some ev) dp (bs, ws)
         = (bs @ [\<lparr>method_id = m, EV = ev, Equity = js_sub ev (netDebtYen i),
                    PricePerShare = Fin 0, used = False,
                    skipReason = Some (''Negative equity value: ''
                                       @ formatJPY rt (js_sub ev (netDebtYen i)))\<rparr>],
            ws @ [(if m = EV_Sales then ''EV/Sales'' else ''EV/EBITDA'') @ '': ''
                   @ [CHR 0xE6, CHR 0xA0, CHR 0xAA, CHR 0xE4, CHR 0xB8, CHR 0xBB, CHR 0xE4, CHR 0xBE,
                      CHR 0xA1, CHR 0xE5, CHR 0x80, CHR 0xA4, CHR 0xE3, CHR 0x81, CHR 0x8C, CHR 0xE8,
                      CHR 0xB2, CHR 0xA0, CHR 0xE3, CHR 0x81, CHR 0xAB, CHR 0xE3, CHR 0x81, CHR 0xAA,
                      CHR 0xE3, CHR 0x82, CHR 0x8A, CHR 0xE3, CHR 0x81, CHR 0xBE, CHR 0xE3, CHR 0x81,
                      CHR 0x97, CHR 0xE3, CHR 0x81, CHR 0x9F]
                   @ '' (EV: '' @ formatJPY rt ev @ '', ''
                   @ [CHR 0xE3, CHR 0x83, CHR 0x8D, CHR 0xE3, CHR 0x83, CHR 0x83, CHR 0xE3, CHR 0x83,
                      CHR 0x88, CHR 0xE8, CHR 0xB2, CHR 0xA0, CHR 0xE5, CHR 0x82, CHR 0xB5]
                   @ '': '' @ formatJPY rt (netDebtYen i) @ '')''])
     \<and> (fst (validateInputs rt i) \<and> evByMethod i m = Some ev
        \<longrightarrow> find (\<lambda>b. method_id b = m) (bridges (computeValuation rt i))
              = Some \<lparr>method_id = m, EV = ev, Equity = js_sub ev (netDebtYen i),
                      PricePerShare = Fin 0, used = False,
                      skipReason = Some (''Negative equity value: ''
                                         @ formatJPY rt (js_sub ev (netDebtYen i)))\<rparr>
            \<and> count_list (warnings (computeValuation rt i))
                 ((if m = EV_Sales then ''EV/Sales'' else ''EV/EBITDA'') @ '': ''
                  @ [CHR 0xE6, CHR 0xA0, CHR 0xAA, CHR 0xE4, CHR 0xB8, CHR 0xBB, CHR 0xE4, CHR 0xBE,
                     CHR 0xA1, CHR 0xE5, CHR 0x80, CHR 0xA4, CHR 0xE3, CHR 0x81, CHR 0x8C, CHR 0xE8,
                     CHR 0xB2, CHR 0xA0, CHR 0xE3, CHR 0x81, CHR 0xAB, CHR 0xE3, CHR 0x81, CHR 0xAA,
                     CHR 0xE3, CHR 0x82, CHR 0x8A, CHR 0xE3, CHR 0x81, CHR 0xBE, CHR 0xE3, CHR 0x81,
                     CHR 0x97, CHR 0xE3, CHR 0x81, CHR 0x9F]
                  @ '' (EV: '' @ formatJPY rt ev @ '', ''
                  @ [CHR 0xE3, CHR 0x83, CHR 0x8D, CHR 0xE3, CHR 0x83, CHR 0x83, CHR 0xE3, CHR 0x83,
                     CHR 0x88, CHR 0xE8, CHR 0xB2, CHR 0xA0, CHR 0xE5, CHR 0x82, CHR 0xB5]
                  @ '': '' @ formatJPY rt (netDebtYen i) @ '')'') = 1)"
proof (intro impI)
  assume h: "(m = EV_Sales \<or> m = EV_EBITDA) \<and> isFinite ev \<and> js_gt ev (Fin 0)
     \<and> js_le (js_sub ev (netDebtYen i)) (Fin 0)"
  then have m: "m = EV_Sales \<or> m = EV_EBITDA" by simp
  then have p: "m \<noteq> P_E" by auto
  note t = negativeEquityWarning_text[OF m, of rt i ev, symmetric]
  show "addBridge rt i m (Some ev) dp (bs, ws)
         = (bs @ [\<lparr>method_id = m, EV = ev, Equity = js_sub ev (netDebtYen i),
                    PricePerShare = Fin 0, used = False,
                    skipReason = Some (''Negative equity value: ''
                                       @ formatJPY rt (js_sub ev (netDebtYen i)))\<rparr>],
            ws @ [(if m = EV_Sales then ''EV/Sales'' else ''EV/EBITDA'') @ '': ''
                   @ [CHR 0xE6, CHR 0xA0, CHR 0xAA, CHR 0xE4, CHR 0xB8, CHR 0xBB, CHR 0xE4, CHR 0xBE,
                      CHR 0xA1, CHR 0xE5, CHR 0x80, CHR 0xA4, CHR 0xE3, CHR 0x81, CHR 0x8C, CHR 0xE8,
                      CHR 0xB2, CHR 0xA0, CHR 0xE3, CHR 0x81, CHR 0xAB, CHR 0xE3, CHR 0x81, CHR 0xAA,
                      CHR 0xE3, CHR 0x82, CHR 0x8A, CHR 0xE3, CHR 0x81, CHR 0xBE, CHR 0xE3, CHR 0x81,
                      CHR 0x97, CHR 0xE3, CHR 0x81, CHR 0x9F]
                   @ '' (EV: '' @ formatJPY rt ev @ '', ''
                   @ [CHR 0xE3, CHR 0x83, CHR 0x8D, CHR 0xE3, CHR 0x83, CHR 0x83, CHR 0xE3, CHR 0x83,
                      CHR 0x88, CHR 0xE8, CHR 0xB2, CHR 0xA0, CHR 0xE5, CHR 0x82, CHR 0xB5]
                   @ '': '' @ formatJPY rt (netDebtYen i) @ '')''])
     \<and> (fst (validateInputs rt i) \<and> evByMethod i m = Some ev
        \<longrightarrow> find (\<lambda>b. method_id b = m) (bridges (computeValuation rt i))
              = Some \<lparr>method_id = m, EV = ev, Equity = js_sub ev (netDebtYen i),
                      PricePerShare = Fin 0, used = False,
                      skipReason = Some (''Negative equity value: ''
                                         @ formatJPY rt (js_sub ev (netDebtYen i)))\<rparr>
            \<and> count_list (warnings (computeValuation rt i))
                 ((if m = EV_Sales then ''EV/Sales'' else ''EV/EBITDA'') @ '': ''
                  @ [CHR 0xE6, CHR 0xA0, CHR 0xAA, CHR 0xE4, CHR 0xB8, CHR 0xBB, CHR 0xE4, CHR 0xBE,
                     CHR 0xA1, CHR 0xE5, CHR 0x80, CHR 0xA4, CHR 0xE3, CHR 0x81, CHR 0x8C, CHR 0xE8,
                     CHR 0xB2, CHR 0xA0, CHR 0xE3, CHR 0x81, CHR 0xAB, CHR 0xE3, CHR 0x81, CHR 0xAA,
                     CHR 0xE3, CHR 0x82, CHR 0x8A, CHR 0xE3, CHR 0x81, CHR 0xBE, CHR 0xE3, CHR 0x81,
                     CHR 0x97, CHR 0xE3, CHR 0x81, CHR 0x9F]
                  @ '' (EV: '' @ formatJPY rt ev @ '', ''
                  @ [CHR 0xE3, CHR 0x83, CHR 0x8D, CHR 0xE3, CHR 0x83, CHR 0x83, CHR 0xE3, CHR 0x83,
                     CHR 0x88, CHR 0xE8, CHR 0xB2, CHR 0xA0, CHR 0xE5, CHR 0x82, CHR 0xB5]
                  @ '': '' @ formatJPY rt (netDebtYen i) @ '')'') = 1)"
    unfolding t
    using negative_equity_bridge[of rt i m ev dp bs ws] h p by blast
qed

theorem C5_negative_equity_witness:
  "fst (validateInputs stub_runtime highDebtInputs)
   \<and> evByMethod highDebtInputs EV_Sales = Some (Fin 5000000000)
   \<and> netDebtYen highDebtInputs = Fin 10000000000
   \<and> js_le (js_sub (Fin 5000000000) (Fin 10000000000)) (Fin 0)
   \<and> find (\<lambda>b. method_id b = EV_Sales) (bridges (computeValuation stub_runtime highDebtInputs))
       = Some \<lparr>method_id = EV_Sales, EV = Fin 5000000000, Equity = Fin (- 5000000000),
               PricePerShare = Fin 0, used = False,
               skipReason = Some (''Negative equity value: ''
                                  @ formatJPY stub_runtime (Fin (- 5000000000)))\<rparr>
   \<and> count_list (warnings (computeValuation stub_runtime highDebtInputs))
        (''EV/Sales'' @ '': ''
          @ [CHR 0xE6, CHR 0xA0, CHR 0xAA, CHR 0xE4, CHR 0xB8, CHR 0xBB, CHR 0xE4, CHR 0xBE,
             CHR 0xA1, CHR 0xE5, CHR 0x80, CHR 0xA4, CHR 0xE3, CHR 0x81, CHR 0x8C, CHR 0xE8,
             CHR 0xB2, CHR 0xA0, CHR 0xE3, CHR 0x81, CHR 0xAB, CHR 0xE3, CHR 0x81, CHR 0xAA,
             CHR 0xE3, CHR 0x82, CHR 0x8A, CHR 0xE3, CHR 0x81, CHR 0xBE, CHR 0xE3, CHR 0x81,
             CHR 0x97, CHR 0xE3, CHR 0x81, CHR 0x9F]
          @ '' (EV: '' @ formatJPY stub_runtime (Fin 5000000000) @ '', ''
          @ [CHR 0xE3, CHR 0x83, CHR 0x8D, CHR 0xE3, CHR 0x83, CHR 0x83, CHR 0xE3, CHR 0x83,
             CHR 0x88, CHR 0xE8, CHR 0xB2, CHR 0xA0, CHR 0xE5, CHR 0x82, CHR 0xB5]
          @ '': '' @ formatJPY stub_runtime (Fin 10000000000) @ '')'') = 1
   \<and> addBridge stub_runtime highDebtInputs EV_Sales (Some (Fin 5000000000)) None ([], [])
       = ([\<lparr>method_id = EV_Sales, EV = Fin 5000000000, Equity = Fin (- 5000000000),
             PricePerShare = Fin 0, used = False,
             skipReason = Some (''Negative equity value: ''
                                @ formatJPY stub_runtime (Fin (- 5000000000)))\<rparr>],
          [''EV/Sales'' @ '': ''
          @ [CHR 0xE6, CHR 0xA0, CHR 0xAA, CHR 0xE4, CHR 0xB8, CHR 0xBB, CHR 0xE4, CHR 0xBE,
             CHR 0xA1, CHR 0xE5, CHR 0x80, CHR 0xA4, CHR 0xE3, CHR 0x81, CHR 0x8C, CHR 0xE8,
             CHR 0xB2, CHR 0xA0, CHR 0xE3, CHR 0x81, CHR 0xAB, CHR 0xE3, CHR 0x81, CHR 0xAA,
             CHR 0xE3, CHR 0x82, CHR 0x8A, CHR 0xE3, CHR 0x81, CHR 0xBE, CHR 0xE3, CHR 0x81,
             CHR 0x97, CHR 0xE3, CHR 0x81, CHR 0x9F]
          @ '' (EV: '' @ formatJPY stub_runtime (Fin 5000000000) @ '', ''
          @ [CHR 0xE3, CHR 0x83, CHR 0x8D, CHR 0xE3, CHR 0x83, CHR 0x83, CHR 0xE3, CHR 0x83,
             CHR 0x88, CHR 0xE8, CHR 0xB2, CHR 0xA0, CHR 0xE5, CHR 0x82, CHR 0xB5]
          @ '': '' @ formatJPY stub_runtime (Fin 10000000000) @ '')''])"
proof -
  have e: "evByMethod highDebtInputs EV_Sales = Some (Fin 5000000000)"
      "netDebtYen highDebtInputs = Fin 10000000000"
    by (simp_all add: highDebtInputs_def standardInputs_def)
  have s: "js_sub (Fin 5000000000) (Fin 10000000000) = Fin (- 5000000000)"
    by (simp add: js_sub_def rnd_int)
  from C5_negative_equity[of EV_Sales "Fin 5000000000" highDebtInputs stub_runtime None "[]" "[]"]
    highDebtInputs_valid[of stub_runtime]
  show ?thesis by (simp add: e s js_gt_def js_le_def)
qed

text \<open>
  C6. The validator's four rules are independent: each message is among the errors
  exactly when its own rule fails, whatever the other rules find. When validation
  fails, the result carries all collected errors, no warning and \<open>success = False\<close>.
  For \<open>sharesOutstanding = -1000\<close>, \<open>netDebtYen = NaN\<close>, an empty \<open>evByMethod\<close>
  and no P/E price the errors are exactly the three messages.
\<close>

theorem C6_validator_collects_all_errors:
  "((''Invalid shares outstanding: '' @ numToString rt (sharesOutstanding i)
        \<in> set (snd (validateInputs rt i)))
      = (\<not> isFinite (sharesOutstanding i) \<or> js_le (sharesOutstanding i) (Fin 0)))
   \<and> ((''Invalid net debt: '' @ numToString rt (netDebtYen i) \<in> set (snd (validateInputs rt i)))
      = (\<not> isFinite (netDebtYen i)))
   \<and> ((''No valid valuation methods provided'' \<in> set (snd (validateInputs rt i)))
      = (\<not> hasValidEv i \<and> \<not> truthy_opt (pePrice i)))
   \<and> (\<forall>p. pePrice i = Some p \<longrightarrow>
         (''Invalid P/E price: '' @ numToString rt p \<in> set (snd (validateInputs rt i)))
           = (\<not> isFinite p \<or> js_le p (Fin 0)))
   \<and> fst (validateInputs rt i) = (snd (validateInputs rt i) = [])
   \<and> (\<not> fst (validateInputs rt i) \<longrightarrow>
         errors (computeValuation rt i) = snd (validateInputs rt i)
       \<and> errors (computeValuation rt i) \<noteq> []
       \<and> warnings (computeValuation rt i) = []
       \<and> success (computeValuation rt i) = False)
   \<and> errors (computeValuation rt invalidInputs)
       = [''Invalid shares outstanding: -1000'', ''Invalid net debt: NaN'',
          ''No valid valuation methods provided'']
   \<and> success (computeValuation rt invalidInputs) = False
   \<and> warnings (computeValuation rt invalidInputs) = []"
proof (intro conjI allI impI)
  show "(''Invalid shares outstanding: '' @ numToString rt (sharesOutstanding i)
        \<in> set (snd (validateInputs rt i)))
      = (\<not> isFinite (sharesOutstanding i) \<or> js_le (sharesOutstanding i) (Fin 0))"
    unfolding validateInputs_errors by (simp split: option.splits)
  show "(''Invalid net debt: '' @ numToString rt (netDebtYen i) \<in> set (snd (validateInputs rt i)))
      = (\<not> isFinite (netDebtYen i))"
    unfolding validateInputs_errors by (simp split: option.splits)
  show "(''No valid valuation methods provided'' \<in> set (snd (validateInputs rt i)))
      = (\<not> hasValidEv i \<and> \<not> truthy_opt (pePrice i))"
    unfolding validateInputs_errors by (simp split: option.splits)
  show "(''Invalid P/E price: '' @ numToString rt p \<in> set (snd (validateInputs rt i)))
           = (\<not> isFinite p \<or> js_le p (Fin 0))" if "pePrice i = Some p" for p
    unfolding validateInputs_errors using that by simp
  show "fst (validateInputs rt i) = (snd (validateInputs rt i) = [])"
    by (rule validateInputs_fst)
  show "errors (computeValuation rt i) = snd (validateInputs rt i)"
    by (rule errors_computeValuation)
  show "errors (computeValuation rt i) \<noteq> []" if "\<not> fst (validateInputs rt i)"
    using that by (simp add: errors_computeValuation validateInputs_fst)
  show "warnings (computeValuation rt i) = []" if "\<not> fst (validateInputs rt i)"
    using that by (simp add: computeValuation_invalid)
  show "success (computeValuation rt i) = False" if "\<not> fst (validateInputs rt i)"
    using that by (simp add: computeValuation_invalid)
  show "errors (computeValuation rt invalidInputs)
       = [''Invalid shares outstanding: -1000'', ''Invalid net debt: NaN'',
          ''No valid valuation methods provided'']"
    by (simp add: errors_computeValuation invalidInputs_errors)
  show "success (computeValuation rt invalidInputs) = False"
    by (simp add: computeValuation_invalid invalidInputs_invalid)
  show "warnings (computeValuation rt invalidInputs) = []"
    by (simp add: computeValuation_invalid invalidInputs_invalid)
qed


theorem C6_validator_collects_all_errors_witness:
  "\<not> fst (validateInputs stub_runtime invalidInputs)
   \<and> ''Invalid shares outstanding: -1000'' \<in> set (snd (validateInputs stub_runtime invalidInputs))
   \<and> ''Invalid net debt: NaN'' \<in> set (snd (validateInputs stub_runtime invalidInputs))
   \<and> errors (computeValuation stub_runtime invalidInputs)
       = snd (validateInputs stub_runtime invalidInputs)
   \<and> warnings (computeValuation stub_runtime invalidInputs) = []
   \<and> success (computeValuation stub_runtime invalidInputs) = False
   \<and> pePrice zeroPriceInputs = Some (Fin 0)
   \<and> ''Invalid P/E price: 0'' \<in> set (snd (validateInputs stub_runtime zeroPriceInputs))"
proof -
  have a: "\<not> fst (validateInputs stub_runtime invalidInputs)" by (rule invalidInputs_invalid)
  have n: "numToString stub_runtime (Fin (- 1000)) = ''-1000''"
      "numToString stub_runtime NaN = ''NaN''" "numToString stub_runtime (Fin 0) = ''0''"
    by (simp_all add: numToString_def int_str_def digits.simps)
  have p: "pePrice zeroPriceInputs = Some (Fin 0)" by (simp add: zeroPriceInputs_def)
  have s: "sharesOutstanding invalidInputs = Fin (- 1000)" "netDebtYen invalidInputs = NaN"
    by (simp_all add: invalidInputs_def)
  from C6_validator_collects_all_errors[of stub_runtime invalidInputs]
    C6_validator_collects_all_errors[of stub_runtime zeroPriceInputs] a p
  show ?thesis by (simp add: n s js_le_def)
qed

text \<open>
  C7 (amended). For validated inputs whose numbers are doubles and whose result has at
  least one used method: the range is the pair of the least and the greatest used
  price, and every used price lies within it. The median lies within the range when the
  number of used methods is odd (it is then one of the prices). The average and the
  median lie within the range when at most two methods are used and the sum of their
  prices does not overflow. When exactly one method is used, the average, the median
  and both ends of the range equal its price, and so does the weighted mean unless the
  weight in effect for that method is \<open>+Infinity\<close>; with no weights supplied it
  never is.
\<close>

theorem C7_statistics_in_range:
  "fst (validateInputs rt i) \<and> wellformed i
   \<and> s = summary (computeValuation rt i)
   \<and> ps = map PricePerShare (filter used (bridges (computeValuation rt i)))
   \<and> 0 < validMethodCount s
   \<longrightarrow> validMethodCount s = length ps
     \<and> priceRange s = (math_min ps, math_max ps)
     \<and> fst (priceRange s) \<in> set ps \<and> snd (priceRange s) \<in> set ps
     \<and> (\<forall>p\<in>set ps. in_range (priceRange s) p)
     \<and> (odd (length ps) \<longrightarrow>
           medianValue s \<in> set ps \<and> in_range (priceRange s) (medianValue s))
     \<and> (length ps \<le> 2 \<and> (list_all isFinite ps \<longrightarrow> isFinite (foldl js_add (Fin 0) ps))
          \<longrightarrow> in_range (priceRange s) (avg s) \<and> in_range (priceRange s) (medianValue s))
     \<and> (length ps = 1 \<longrightarrow>
           avg s = hd ps \<and> medianValue s = hd ps \<and> priceRange s = (hd ps, hd ps))
     \<and> (length ps = 1 \<and> snd (snd (buildBridges rt i)) (hd (usedMethods s)) \<noteq> PInf
          \<longrightarrow> weighted s = hd ps)
     \<and> (length ps = 1 \<and> weights i = None \<longrightarrow> weighted s = hd ps)"
proof (intro impI)
  assume h: "fst (validateInputs rt i) \<and> wellformed i
   \<and> s = summary (computeValuation rt i)
   \<and> ps = map PricePerShare (filter used (bridges (computeValuation rt i)))
   \<and> 0 < validMethodCount s"
  then have v: "fst (validateInputs rt i)" and w: "wellformed i" by simp_all
  define bs where "bs = fst (buildBridges rt i)"
  define wt where "wt = snd (snd (buildBridges rt i))"
  define vb where "vb = filter used bs"
  have bs: "bridges (computeValuation rt i) = bs"
    by (simp add: bridges_computeValuation[OF v] bs_def)
  from h have ps: "ps = map PricePerShare vb" by (simp add: bs vb_def)
  from h have s: "s = fst (summarise bs (fst (snd (buildBridges rt i))) wt)"
    by (simp add: summary_computeValuation[OF v] bs_def wt_def)
  have cnt: "validMethodCount s = length ps" "usedMethods s = map method_id vb"
    by (simp_all add: s summarise_count ps vb_def)
  with h have ne: "ps \<noteq> []" by auto
  have ok: "list_all price_ok ps"
    using used_prices_ok[OF v w] by (simp add: bs ps vb_def)
  then have nn: "list_all (\<lambda>x. x \<noteq> NaN) ps"
    by (auto simp: list_all_iff price_ok_def comparable_def)
  have rg: "priceRange s = (math_min ps, math_max ps)"
    using ne by (simp add: s summarise_fields(2) ps vb_def)
  have av: "avg s = js_div (foldl js_add (Fin 0) ps) (Fin (real (length ps)))"
    using ne by (simp add: s summarise_fields(1) ps vb_def)
  have md: "medianValue s = median ps"
    by (simp add: s medianValue_summarise ps vb_def)
  note mn = math_min_props[OF ne nn] and mx = math_max_props[OF ne nn]
  have mem: "in_range (priceRange s) p" if "p \<in> set ps" for p
    using that mn(2) mx(2) by (simp add: rg in_range_def)
  have odd: "medianValue s \<in> set ps \<and> in_range (priceRange s) (medianValue s)"
    if "odd (length ps)"
    using median_odd_mem[OF that] mem by (simp add: md)
  have single: "avg s = hd ps \<and> medianValue s = hd ps \<and> priceRange s = (hd ps, hd ps)"
    if "length ps = 1"
  proof -
    from that obtain p where p: "ps = [p]" by (cases ps) auto
    with ok have "price_ok p" by simp
    from stats_single[OF this] show ?thesis by (simp add: av md rg p)
  qed
  have small: "in_range (priceRange s) (avg s) \<and> in_range (priceRange s) (medianValue s)"
    if l: "length ps \<le> 2"
      and nov: "list_all isFinite ps \<longrightarrow> isFinite (foldl js_add (Fin 0) ps)"
  proof (cases "length ps = 1")
    case True
    from single[OF True] True have "avg s \<in> set ps" "medianValue s \<in> set ps"
      by (cases ps; simp)+
    with mem show ?thesis by simp
  next
    case False
    moreover have "length ps \<noteq> 0" using ne by simp
    ultimately have "length ps = 2" using l by linarith
    then obtain a b where p: "ps = [a, b]" by (cases ps; cases "tl ps") auto
    with ok have a: "price_ok a" and b: "price_ok b" by simp_all
    then have "comparable a" by (simp add: price_ok_def)
    from nov have "isFinite a \<and> isFinite b \<longrightarrow> isFinite (js_add a b)"
      by (simp add: p js_add_0_left[OF \<open>comparable a\<close>])
    from stats_pair[OF a b this] show ?thesis
      unfolding av md rg p by simp
  qed
  have wgt: "weighted s = hd ps"
    if l: "length ps = 1" and f: "wt (hd (usedMethods s)) \<noteq> PInf"
  proof -
    from l obtain x where x: "vb = [x]" unfolding ps by (cases vb) auto
    then have p: "ps = [PricePerShare x]" by (simp add: ps)
    with ok have c: "comparable (PricePerShare x)" by (simp add: price_ok_def)
    from f have f': "wt (method_id x) \<noteq> PInf" by (simp add: cnt(2) x)
    have n: "is_number (wt (method_id x))"
      unfolding wt_def by (rule is_number_weight_table[OF w])
    have a: "avg s = PricePerShare x" using single[OF l] by (simp add: p)
    have "weighted s
       = (let totalWeight = foldl (\<lambda>sum b. js_add sum (or0 (wt (method_id b)))) (Fin 0) [x]
          in if js_gt totalWeight (Fin 0) then
               foldl (\<lambda>sum b. js_add sum (js_mul (PricePerShare b)
                                  (js_div (or0 (wt (method_id b))) totalWeight)))
                 (Fin 0) [x]
             else PricePerShare x)"
      unfolding s summarise_fields(3) vb_def[symmetric] x using a[unfolded s]
      by (simp add: Let_def)
    also have "\<dots> = PricePerShare x"
      by (rule weighted_single[OF c n f']) simp_all
    finally show ?thesis by (simp add: p)
  qed
  have dflt: "weighted s = hd ps" if "length ps = 1" "weights i = None"
    by (rule wgt[OF that(1)]) (simp add: wt_def default_weight_table_finite[OF that(2)])
  show "validMethodCount s = length ps
     \<and> priceRange s = (math_min ps, math_max ps)
     \<and> fst (priceRange s) \<in> set ps \<and> snd (priceRange s) \<in> set ps
     \<and> (\<forall>p\<in>set ps. in_range (priceRange s) p)
     \<and> (odd (length ps) \<longrightarrow>
           medianValue s \<in> set ps \<and> in_range (priceRange s) (medianValue s))
     \<and> (length ps \<le> 2 \<and> (list_all isFinite ps \<longrightarrow> isFinite (foldl js_add (Fin 0) ps))
          \<longrightarrow> in_range (priceRange s) (avg s) \<and> in_range (priceRange s) (medianValue s))
     \<and> (length ps = 1 \<longrightarrow>
           avg s = hd ps \<and> medianValue s = hd ps \<and> priceRange s = (hd ps, hd ps))
     \<and> (length ps = 1 \<and> snd (snd (buildBridges rt i)) (hd (usedMethods s)) \<noteq> PInf
          \<longrightarrow> weighted s = hd ps)
     \<and> (length ps = 1 \<and> weights i = None \<longrightarrow> weighted s = hd ps)"
    using cnt(1) rg mn(1) mx(1) mem odd small single wgt dflt
    unfolding wt_def[symmetric] by (simp add: rg)
qed

theorem C7_statistics_in_range_witness:
  "fst (validateInputs stub_runtime limitedInputs) \<and> wellformed limitedInputs
   \<and> map PricePerShare (filter used (bridges (computeValuation stub_runtime limitedInputs)))
       = [Fin 2000]
   \<and> validMethodCount (summary (computeValuation stub_runtime limitedInputs)) = 1
   \<and> weights limitedInputs = None
   \<and> avg (summary (computeValuation stub_runtime limitedInputs)) = Fin 2000
   \<and> medianValue (summary (computeValuation stub_runtime limitedInputs)) = Fin 2000
   \<and> weighted (summary (computeValuation stub_runtime limitedInputs)) = Fin 2000
   \<and> priceRange (summary (computeValuation stub_runtime limitedInputs)) = (Fin 2000, Fin 2000)
   \<and> fst (validateInputs stub_runtime equalPricesInputs) \<and> wellformed equalPricesInputs
   \<and> map PricePerShare (filter used (bridges (computeValuation stub_runtime equalPricesInputs)))
       = [Fin 7, Fin 7]
   \<and> isFinite (foldl js_add (Fin 0) [Fin 7, Fin 7])
   \<and> in_range (priceRange (summary (computeValuation stub_runtime equalPricesInputs)))
        (avg (summary (computeValuation stub_runtime equalPricesInputs)))
   \<and> in_range (priceRange (summary (computeValuation stub_runtime equalPricesInputs)))
        (medianValue (summary (computeValuation stub_runtime equalPricesInputs)))"
proof -
  have pl: "map PricePerShare (filter used (bridges (computeValuation stub_runtime limitedInputs)))
      = [Fin 2000]"
    by (simp add: bridges_computeValuation limitedInputs_valid limitedInputs_bridges
        ebitdaSkipped_def)
  have cl: "validMethodCount (summary (computeValuation stub_runtime limitedInputs)) = 1"
    by (simp add: summary_computeValuation limitedInputs_valid summarise_count
        limitedInputs_bridges ebitdaSkipped_def)
  have wl: "weights limitedInputs = None" by (simp add: limitedInputs_def)
  have pe: "map PricePerShare (filter used (bridges (computeValuation stub_runtime equalPricesInputs)))
      = [Fin 7, Fin 7]"
    by (simp add: bridges_computeValuation equalPricesInputs_valid equalPricesInputs_bridges
        ebitdaSkipped_def)
  have ce: "validMethodCount (summary (computeValuation stub_runtime equalPricesInputs)) = 2"
    by (simp add: equalPricesInputs_summary)
  have fe: "isFinite (foldl js_add (Fin 0) [Fin 7, Fin 7])" by (simp add: rnd_int)
  from C7_statistics_in_range[of stub_runtime limitedInputs
      "summary (computeValuation stub_runtime limitedInputs)" "[Fin 2000]"]
    C7_statistics_in_range[of stub_runtime equalPricesInputs
      "summary (computeValuation stub_runtime equalPricesInputs)" "[Fin 7, Fin 7]"]
    limitedInputs_valid[of stub_runtime] limitedInputs_wellformed
    equalPricesInputs_valid[of stub_runtime] equalPricesInputs_wellformed
  show ?thesis
    unfolding pl pe by (auto simp: cl ce wl math_min_def math_max_def rnd_int)
qed

text \<open>
  As stated, C7 fails on rounding alone. With one share, no net debt, an EV/Sales figure
  of 7 and a P/E price of 7 (no weights supplied), both used prices are 7 and the range is
  \<open>(7, 7)\<close>; the default weights 0.4 and 0.2 add up to 0.6000000000000001, and the
  weighted mean comes out as \<open>7 - 2 ^ - 50\<close>, below the range.
\<close>

theorem C7_counterexample:
  "wellformed equalPricesInputs
   \<and> fst (validateInputs stub_runtime equalPricesInputs)
   \<and> weights equalPricesInputs = None
   \<and> validMethodCount (summary (computeValuation stub_runtime equalPricesInputs)) = 2
   \<and> priceRange (summary (computeValuation stub_runtime equalPricesInputs)) = (Fin 7, Fin 7)
   \<and> weighted (summary (computeValuation stub_runtime equalPricesInputs))
       = Fin (7881299347898367 / 1125899906842624)
   \<and> \<not> js_le (fst (priceRange (summary (computeValuation stub_runtime equalPricesInputs))))
            (weighted (summary (computeValuation stub_runtime equalPricesInputs)))"
  by (simp add: equalPricesInputs_valid equalPricesInputs_summary js_le_def
      equalPricesInputs_wellformed)
    (simp add: equalPricesInputs_def)

text \<open>
  C8 (amended). With variation fractions \<open>nv\<close> and \<open>mv\<close>,
  \<^verbatim>\<open>generateSensitivityScenarios\<close> returns, in this order: the unmodified base case
  labelled \<^verbatim>\<open>Base Case\<close>; the base with its net debt multiplied by \<open>1 + nv\<close>, then
  by \<open>1 - nv\<close>; for EV/Sales and then for EV/EBITDA, if the base EV of the method is
  defined, non-zero and not NaN, the base with that EV multiplied by \<open>1 + mv\<close>, then
  by \<open>1 - mv\<close> (every other entry kept), labelled with the method's name; and, if the
  P/E price is defined, non-zero and not NaN, the base with that price multiplied by
  \<open>1 + mv\<close>, then by \<open>1 - mv\<close>. An omitted fraction is 0.1. Hence the number of
  scenarios is \<open>1 + 2 + 2 * (number of EV-based methods whose base EV is defined,
  non-zero and not NaN) + (2 if the P/E price is defined, non-zero and not NaN,
  else 0)\<close>, whether or not the bridge builder would later skip a method; with only a
  non-zero EV/Sales figure exactly 5 scenarios are returned.
\<close>

theorem C8_scenario_count_and_order:
  "generateSensitivityScenarios rt b (Some nv) (Some mv)
     = [\<lparr>scenario = ''Base Case'', scenario_inputs = b\<rparr>,
        \<lparr>scenario = [CHR 0xE3, CHR 0x83, CHR 0x8D, CHR 0xE3, CHR 0x83, CHR 0x83, CHR 0xE3, CHR 0x83,
                     CHR 0x88, CHR 0xE8, CHR 0xB2, CHR 0xA0, CHR 0xE5, CHR 0x82, CHR 0xB5]
                    @ '' +'' @ toFixed0 rt (js_mul nv (Fin 100)) @ ''%'',
         scenario_inputs = b\<lparr>netDebtYen := js_mul (netDebtYen b) (js_add (Fin 1) nv)\<rparr>\<rparr>,
        \<lparr>scenario = [CHR 0xE3, CHR 0x83, CHR 0x8D, CHR 0xE3, CHR 0x83, CHR 0x83, CHR 0xE3, CHR 0x83,
                     CHR 0x88, CHR 0xE8, CHR 0xB2, CHR 0xA0, CHR 0xE5, CHR 0x82, CHR 0xB5]
                    @ '' -'' @ toFixed0 rt (js_mul nv (Fin 100)) @ ''%'',
         scenario_inputs = b\<lparr>netDebtYen := js_mul (netDebtYen b) (js_sub (Fin 1) nv)\<rparr>\<rparr>]
       @ (case evByMethod b EV_Sales of
            None \<Rightarrow> []
          | Some ev \<Rightarrow>
              if ev = NaN \<or> ev = Fin 0 then []
              else [\<lparr>scenario = ''EV/Sales +'' @ toFixed0 rt (js_mul mv (Fin 100)) @ ''%'',
                     scenario_inputs = b\<lparr>evByMethod := (evByMethod b)
                       (EV_Sales \<mapsto> js_mul ev (js_add (Fin 1) mv))\<rparr>\<rparr>,
                    \<lparr>scenario = ''EV/Sales -'' @ toFixed0 rt (js_mul mv (Fin 100)) @ ''%'',
                     scenario_inputs = b\<lparr>evByMethod := (evByMethod b)
                       (EV_Sales \<mapsto> js_mul ev (js_sub (Fin 1) mv))\<rparr>\<rparr>])
       @ (case evByMethod b EV_EBITDA of
            None \<Rightarrow> []
          | Some ev \<Rightarrow>
              if ev = NaN \<or> ev = Fin 0 then []
              else [\<lparr>scenario = ''EV/EBITDA +'' @ toFixed0 rt (js_mul mv (Fin 100)) @ ''%'',
                     scenario_inputs = b\<lparr>evByMethod := (evByMethod b)
                       (EV_EBITDA \<mapsto> js_mul ev (js_add (Fin 1) mv))\<rparr>\<rparr>,
                    \<lparr>scenario = ''EV/EBITDA -'' @ toFixed0 rt (js_mul mv (Fin 100)) @ ''%'',
                     scenario_inputs = b\<lparr>evByMethod := (evByMethod b)
                       (EV_EBITDA \<mapsto> js_mul ev (js_sub (Fin 1) mv))\<rparr>\<rparr>])
       @ (case pePrice b of
            None \<Rightarrow> []
          | Some p \<Rightarrow>
              if p = NaN \<or> p = Fin 0 then []
              else [\<lparr>scenario = ''P/E +'' @ toFixed0 rt (js_mul mv (Fin 100)) @ ''%'',
                     scenario_inputs = b\<lparr>pePrice := Some (js_mul p (js_add (Fin 1) mv))\<rparr>\<rparr>,
                    \<lparr>scenario = ''P/E -'' @ toFixed0 rt (js_mul mv (Fin 100)) @ ''%'',
                     scenario_inputs = b\<lparr>pePrice := Some (js_mul p (js_sub (Fin 1) mv))\<rparr>\<rparr>])
   \<and> generateSensitivityScenarios rt b None mv'
       = generateSensitivityScenarios rt b (Some (rnd (1 / 10))) mv'
   \<and> generateSensitivityScenarios rt b nv' None
       = generateSensitivityScenarios rt b nv' (Some (rnd (1 / 10)))
   \<and> length (generateSensitivityScenarios rt b nv' mv')
       = 1 + 2
         + 2 * length (filter (\<lambda>m. evByMethod b m \<noteq> None \<and> evByMethod b m \<noteq> Some (Fin 0)
                                    \<and> evByMethod b m \<noteq> Some NaN) [EV_Sales, EV_EBITDA])
         + (if pePrice b \<noteq> None \<and> pePrice b \<noteq> Some (Fin 0) \<and> pePrice b \<noteq> Some NaN
            then 2 else 0)
   \<and> length (generateSensitivityScenarios rt limitedInputs nv' mv') = 5"
proof (intro conjI)
  show "length (generateSensitivityScenarios rt limitedInputs nv' mv') = 5"
    unfolding length_generateSensitivityScenarios
    by (simp add: limitedInputs_def truthy_opt_def truthy_def)
qed (simp_all add: length_generateSensitivityScenarios truthy_opt_iff,
     simp_all add: generateSensitivityScenarios_def Let_def netDebtScenarios_def
       methodScenarios_def peScenarios_def truthy_def ja_net_debt_def split: option.splits)


theorem C8_scenario_count_and_order_witness:
  "length (generateSensitivityScenarios stub_runtime negativeEbitdaInputs None None) = 9
   \<and> map scenario (generateSensitivityScenarios stub_runtime negativeEbitdaInputs None None)
       = [''Base Case'',
          [CHR 0xE3, CHR 0x83, CHR 0x8D, CHR 0xE3, CHR 0x83, CHR 0x83, CHR 0xE3, CHR 0x83,
          CHR 0x88, CHR 0xE8, CHR 0xB2, CHR 0xA0, CHR 0xE5, CHR 0x82, CHR 0xB5] @ '' +10%'',
          [CHR 0xE3, CHR 0x83, CHR 0x8D, CHR 0xE3, CHR 0x83, CHR 0x83, CHR 0xE3, CHR 0x83,
          CHR 0x88, CHR 0xE8, CHR 0xB2, CHR 0xA0, CHR 0xE5, CHR 0x82, CHR 0xB5] @ '' -10%'',
          ''EV/Sales +10%'', ''EV/Sales -10%'', ''EV/EBITDA +10%'', ''EV/EBITDA -10%'',
          ''P/E +10%'', ''P/E -10%'']
   \<and> scenario_inputs (generateSensitivityScenarios stub_runtime negativeEbitdaInputs None None ! 0)
       = negativeEbitdaInputs
   \<and> map (\<lambda>s. netDebtYen (scenario_inputs s))
        (take 2 (drop 1 (generateSensitivityScenarios stub_runtime negativeEbitdaInputs None None)))
       = [js_mul (Fin 3790000000) (js_add (Fin 1) (rnd (1 / 10))),
          js_mul (Fin 3790000000) (js_sub (Fin 1) (rnd (1 / 10)))]
   \<and> map (\<lambda>s. evByMethod (scenario_inputs s) EV_Sales)
        (take 2 (drop 3 (generateSensitivityScenarios stub_runtime negativeEbitdaInputs None None)))
       = [Some (js_mul (Fin 5000000000) (js_add (Fin 1) (rnd (1 / 10)))),
          Some (js_mul (Fin 5000000000) (js_sub (Fin 1) (rnd (1 / 10))))]
   \<and> map (\<lambda>s. evByMethod (scenario_inputs s) EV_EBITDA)
        (take 2 (drop 5 (generateSensitivityScenarios stub_runtime negativeEbitdaInputs None None)))
       = [Some (js_mul (Fin (- 1000000000)) (js_add (Fin 1) (rnd (1 / 10)))),
          Some (js_mul (Fin (- 1000000000)) (js_sub (Fin 1) (rnd (1 / 10))))]
   \<and> map (\<lambda>s. pePrice (scenario_inputs s))
        (drop 7 (generateSensitivityScenarios stub_runtime negativeEbitdaInputs None None))
       = [Some (js_mul (Fin 1234) (js_add (Fin 1) (rnd (1 / 10)))),
          Some (js_mul (Fin 1234) (js_sub (Fin 1) (rnd (1 / 10))))]"
proof -
  have e: "evByMethod negativeEbitdaInputs EV_Sales = Some (Fin 5000000000)"
      "evByMethod negativeEbitdaInputs EV_EBITDA = Some (Fin (- 1000000000))"
      "pePrice negativeEbitdaInputs = Some (Fin 1234)"
      "netDebtYen negativeEbitdaInputs = Fin 3790000000"
    by (simp_all add: negativeEbitdaInputs_def standardInputs_def)
  have 1: "generateSensitivityScenarios stub_runtime negativeEbitdaInputs None None
      = generateSensitivityScenarios stub_runtime negativeEbitdaInputs
          (Some (rnd (1 / 10))) (Some (rnd (1 / 10)))"
    using C8_scenario_count_and_order[of stub_runtime negativeEbitdaInputs
        "rnd (1 / 10)" "rnd (1 / 10)" None "Some (rnd (1 / 10))"]
      C8_scenario_count_and_order[of stub_runtime negativeEbitdaInputs
        "rnd (1 / 10)" "rnd (1 / 10)" None None]
    by simp
  show ?thesis
    unfolding 1
    using C8_scenario_count_and_order[of stub_runtime negativeEbitdaInputs
        "rnd (1 / 10)" "rnd (1 / 10)" None None]
    by (simp add: e ten_percent toFixed0_10 del: js_add.simps js_mul.simps)
qed


text \<open>
  As stated, C8 counts every defined EV value. An EV/Sales figure of 0 is defined but
  fails \<^verbatim>\<open>if (baseEV)\<close>: 3 scenarios are returned where the stated law gives 5.
\<close>

theorem C8_counterexample:
  "wellformed zeroSalesInputs
   \<and> evByMethod zeroSalesInputs EV_Sales = Some (Fin 0)
   \<and> length (generateSensitivityScenarios stub_runtime zeroSalesInputs None None) = 3
   \<and> 1 + 2 + 2 * length (filter (\<lambda>m. evByMethod zeroSalesInputs m \<noteq> None) [EV_Sales, EV_EBITDA])
      + (if pePrice zeroSalesInputs \<noteq> None then 2 else 0) = (5::nat)"
  by (simp add: standard_variants_wellformed)
    (simp add: generateSensitivityScenarios_def Let_def length_methodScenarios
      length_peScenarios length_netDebtScenarios zeroSalesInputs_def limitedInputs_def
      truthy_opt_def truthy_def)

text \<open>
  C9 (amended). \<^verbatim>\<open>median\<close> of the empty list is NaN. On a non-empty list of
  comparable numbers the sorted copy is an ascending rearrangement of the list, and the
  median is its middle element for an odd count and \<^verbatim>\<open>(a + b) / 2\<close> of the two middle
  elements \<open>a\<close>, \<open>b\<close> for an even count. Provided \<open>a + b\<close> does not overflow,
  that value is the arithmetic mean of \<open>a\<close> and \<open>b\<close> rounded to the nearest double,
  hence the mean itself whenever the mean is a double. The median of one price is that
  price; the median of two doubles whose sum does not overflow is their arithmetic mean
  rounded to the nearest double. The summary's median is \<^verbatim>\<open>median\<close> of the used
  prices, which are comparable when the inputs are doubles.
\<close>

theorem C9_median:
  "median [] = NaN
   \<and> (xs \<noteq> [] \<and> list_all comparable xs \<longrightarrow>
        mset (array_sort (\<lambda>a b. js_sub a b) xs) = mset xs
      \<and> sorted_wrt js_le (array_sort (\<lambda>a b. js_sub a b) xs)
      \<and> median xs
          = (if odd (length xs) then array_sort (\<lambda>a b. js_sub a b) xs ! (length xs div 2)
             else js_div (js_add (array_sort (\<lambda>a b. js_sub a b) xs ! (length xs div 2 - 1))
                                 (array_sort (\<lambda>a b. js_sub a b) xs ! (length xs div 2)))
                         (Fin 2))
      \<and> (even (length xs)
           \<and> array_sort (\<lambda>a b. js_sub a b) xs ! (length xs div 2 - 1) = Fin a
           \<and> array_sort (\<lambda>a b. js_sub a b) xs ! (length xs div 2) = Fin b
           \<and> \<bar>a + b\<bar> < overflow_threshold
          \<longrightarrow> median xs = rnd ((a + b) / 2)
            \<and> (is_double ((a + b) / 2) \<longrightarrow> median xs = Fin ((a + b) / 2))))
   \<and> median [x] = x
   \<and> median [x, y] = js_div (js_add x y) (Fin 2)
   \<and> (is_double c \<and> is_double d \<and> \<bar>c + d\<bar> < overflow_threshold
        \<longrightarrow> median [Fin c, Fin d] = rnd ((c + d) / 2)
          \<and> (is_double ((c + d) / 2) \<longrightarrow> median [Fin c, Fin d] = Fin ((c + d) / 2)))
   \<and> (fst (validateInputs rt i) \<longrightarrow>
        medianValue (summary (computeValuation rt i))
          = median (map PricePerShare (filter used (bridges (computeValuation rt i)))))
   \<and> (fst (validateInputs rt i) \<and> wellformed i \<longrightarrow>
        list_all comparable (map PricePerShare (filter used (bridges (computeValuation rt i)))))"
proof (intro conjI impI)
  show "median [] = NaN" by (simp add: median_def)
  show "median [x] = x" by (rule median_single)
  show "median [x, y] = js_div (js_add x y) (Fin 2)" by (rule median_pair)
next
  assume h: "xs \<noteq> [] \<and> list_all comparable xs"
  show "mset (array_sort (\<lambda>a b. js_sub a b) xs) = mset xs" by (rule mset_array_sort)
  show "sorted_wrt js_le (array_sort (\<lambda>a b. js_sub a b) xs)"
    using h by (intro sorted_array_sort) simp
  show "median xs
          = (if odd (length xs) then array_sort (\<lambda>a b. js_sub a b) xs ! (length xs div 2)
             else js_div (js_add (array_sort (\<lambda>a b. js_sub a b) xs ! (length xs div 2 - 1))
                                 (array_sort (\<lambda>a b. js_sub a b) xs ! (length xs div 2)))
                         (Fin 2))"
    using h by (simp add: median_def Let_def odd_iff_mod_2_eq_one)
next
  assume h: "xs \<noteq> [] \<and> list_all comparable xs"
    and e: "even (length xs)
           \<and> array_sort (\<lambda>a b. js_sub a b) xs ! (length xs div 2 - 1) = Fin a
           \<and> array_sort (\<lambda>a b. js_sub a b) xs ! (length xs div 2) = Fin b
           \<and> \<bar>a + b\<bar> < overflow_threshold"
  from h e show m: "median xs = rnd ((a + b) / 2)"
    by (intro median_even_mean) simp_all
  assume "is_double ((a + b) / 2)"
  then show "median xs = Fin ((a + b) / 2)" unfolding m by (simp add: is_double_def)
next
  assume h: "is_double c \<and> is_double d \<and> \<bar>c + d\<bar> < overflow_threshold"
  then show m: "median [Fin c, Fin d] = rnd ((c + d) / 2)"
    unfolding median_pair by (intro js_mean_rounded) simp_all
  assume "is_double ((c + d) / 2)"
  then show "median [Fin c, Fin d] = Fin ((c + d) / 2)" unfolding m by (simp add: is_double_def)
next
  assume v: "fst (validateInputs rt i)"
  show "medianValue (summary (computeValuation rt i))
          = median (map PricePerShare (filter used (bridges (computeValuation rt i))))"
    by (simp add: summary_computeValuation[OF v] bridges_computeValuation[OF v]
        medianValue_summarise)
next
  assume "fst (validateInputs rt i) \<and> wellformed i"
  then show "list_all comparable
      (map PricePerShare (filter used (bridges (computeValuation rt i))))"
    by (intro used_prices_comparable) simp_all
qed

theorem C9_median_witness:
  "fst (validateInputs stub_runtime standardInputs) \<and> wellformed standardInputs
   \<and> map PricePerShare (filter used (bridges (computeValuation stub_runtime standardInputs)))
       = [Fin 1272, Fin 1070, Fin 1234]
   \<and> list_all comparable [Fin 1272, Fin 1070, Fin 1234]
   \<and> array_sort (\<lambda>a b. js_sub a b) [Fin 1272, Fin 1070, Fin 1234]
       = [Fin 1070, Fin 1234, Fin 1272]
   \<and> sorted_wrt js_le [Fin 1070, Fin 1234, Fin 1272]
   \<and> medianValue (summary (computeValuation stub_runtime standardInputs)) = Fin 1234
   \<and> list_all comparable [Fin 1272, Fin 1234]
   \<and> array_sort (\<lambda>a b. js_sub a b) [Fin 1272, Fin 1234] = [Fin 1234, Fin 1272]
   \<and> is_double 1272 \<and> is_double 1234
   \<and> \<bar>1272 + 1234 :: real\<bar> < overflow_threshold
   \<and> is_double ((1272 + 1234) / 2)
   \<and> median [Fin 1272, Fin 1234] = rnd ((1272 + 1234) / 2)
   \<and> median [Fin 1272, Fin 1234] = Fin ((1272 + 1234) / 2)
   \<and> median [Fin 1272, Fin 1234] = Fin 1253"
proof -
  have b: "map PricePerShare (filter used (bridges (computeValuation stub_runtime standardInputs)))
      = [Fin 1272, Fin 1070, Fin 1234]"
    by (simp add: bridges_computeValuation standardInputs_valid standardInputs_bridges)
  have s: "array_sort (\<lambda>a b. js_sub a b) [Fin 1272, Fin 1070, Fin 1234]
      = [Fin 1070, Fin 1234, Fin 1272]"
    by (simp add: array_sort_def js_sub_def rnd_int)
  have s2: "array_sort (\<lambda>a b. js_sub a b) [Fin 1272, Fin 1234] = [Fin 1234, Fin 1272]"
    by (simp add: array_sort_def js_sub_def rnd_int)
  have t: "\<bar>1234 + 1272 :: real\<bar> < overflow_threshold"
    by (simp add: overflow_threshold_def)
  have d: "is_double ((1234 + 1272) / 2)" "is_double 1234" "is_double 1272"
    by (simp_all add: is_double_def rnd_int)
  have c: "list_all comparable [Fin 1272, Fin 1234]"
    using d by (simp add: comparable_def is_number_def)
  from C9_median[of "[Fin 1272, Fin 1070, Fin 1234]" 0 0 "Fin 0" "Fin 0" 0 0
      stub_runtime standardInputs]
    standardInputs_valid[of stub_runtime] standardInputs_wellformed
  have 1: "fst (validateInputs stub_runtime standardInputs) \<and> wellformed standardInputs
   \<and> map PricePerShare (filter used (bridges (computeValuation stub_runtime standardInputs)))
       = [Fin 1272, Fin 1070, Fin 1234]
   \<and> list_all comparable [Fin 1272, Fin 1070, Fin 1234]
   \<and> array_sort (\<lambda>a b. js_sub a b) [Fin 1272, Fin 1070, Fin 1234]
       = [Fin 1070, Fin 1234, Fin 1272]
   \<and> sorted_wrt js_le [Fin 1070, Fin 1234, Fin 1272]
   \<and> medianValue (summary (computeValuation stub_runtime standardInputs)) = Fin 1234"
    unfolding b s by simp
  have t': "\<bar>1272 + 1234 :: real\<bar> < overflow_threshold"
    by (simp add: overflow_threshold_def)
  have d': "is_double ((1272 + 1234) / 2)"
    by (simp add: is_double_def rnd_int)
  from C9_median[of "[Fin 1272, Fin 1234]" 1234 1272 "Fin 0" "Fin 0" 1272 1234
      stub_runtime standardInputs] c t d t' d'
  have 2: "median [Fin 1272, Fin 1234] = rnd ((1272 + 1234) / 2)
      \<and> median [Fin 1272, Fin 1234] = Fin ((1272 + 1234) / 2)"
    by blast
  then have 3: "median [Fin 1272, Fin 1234] = Fin 1253" by (simp add: rnd_int)
  from 1 2 3 c s2 t' d' d(2,3) show ?thesis by blast
qed

text \<open>
  As stated, C9 fails where the sum overflows: with one share, no net debt, an EV/Sales
  figure and a P/E price of \<open>2 ^ 1023\<close> each, both used prices are \<open>2 ^ 1023\<close>;
  their arithmetic mean is the double \<open>2 ^ 1023\<close>, but \<^verbatim>\<open>(a + b) / 2\<close> is
  \<open>+Infinity\<close>. And where the mean of two doubles is not a double it cannot be the
  median: for 1 and its successor \<open>1 + 2 ^ - 52\<close> the median is 1.
\<close>

theorem C9_counterexample:
  "wellformed hugePricesInputs
   \<and> fst (validateInputs stub_runtime hugePricesInputs)
   \<and> map PricePerShare (filter used (bridges (computeValuation stub_runtime hugePricesInputs)))
       = [Fin (2 ^ 1023), Fin (2 ^ 1023)]
   \<and> is_double ((2 ^ 1023 + 2 ^ 1023) / 2)
   \<and> medianValue (summary (computeValuation stub_runtime hugePricesInputs)) = PInf
   \<and> medianValue (summary (computeValuation stub_runtime hugePricesInputs))
       \<noteq> Fin ((2 ^ 1023 + 2 ^ 1023) / 2)
   \<and> is_double 1 \<and> is_double (1 + 2 powi (- 52))
   \<and> median [Fin 1, Fin (1 + 2 powi (- 52))] = Fin 1
   \<and> median [Fin 1, Fin (1 + 2 powi (- 52))] \<noteq> Fin ((1 + (1 + 2 powi (- 52))) / 2)"
proof -
  have p: "map PricePerShare (filter used (bridges (computeValuation stub_runtime hugePricesInputs)))
       = [Fin (2 ^ 1023), Fin (2 ^ 1023)]"
    by (simp only: bridges_computeValuation[OF hugePricesInputs_valid] hugePricesInputs_prices)
  have m: "medianValue (summary (computeValuation stub_runtime hugePricesInputs)) = PInf"
    by (simp only: summary_computeValuation[OF hugePricesInputs_valid] medianValue_summarise
        hugePricesInputs_prices median_huge)
  have h: "((2::real) ^ 1023 + 2 ^ 1023) / 2 = 2 ^ 1023" by simp
  have d: "is_double ((2 ^ 1023 + 2 ^ 1023) / 2)"
    unfolding h by (rule is_double_2_1023)
  have one: "is_double 1" by (simp add: is_double_def rnd_int)
  have ne: "(1::real) \<noteq> (1 + (1 + 2 powi (- 52))) / 2"
    by (simp add: power_int_minus_left)
  show ?thesis
    using p m d one is_double_succ_1 ne hugePricesInputs_wellformed
      hugePricesInputs_valid[of stub_runtime]
    by (simp only: median_tie number.inject number.distinct simp_thms)
qed

text \<open>
  C10 (amended). For validated inputs every used bridge has a price that is not NaN and
  not negative. For an EV-based method the EV is finite and positive, the equity is
  \<open>EV - netDebtYen\<close> and positive, and the price is \<open>Equity / sharesOutstanding\<close>;
  the price is finite and strictly positive whenever the equity is finite and the exact
  quotient lies strictly between \<open>2 ^ - 1075\<close> and \<open>2 ^ 1024 - 2 ^ 970\<close>. For P/E
  the price is finite and positive. Hence every price that enters the summary is not
  NaN and not negative.
\<close>

theorem C10_used_prices:
  "(fst (validateInputs rt i) \<and> b \<in> set (bridges (computeValuation rt i)) \<and> used b
    \<longrightarrow> PricePerShare b \<noteq> NaN \<and> js_le (Fin 0) (PricePerShare b)
      \<and> (if method_id b = P_E
          then isFinite (PricePerShare b) \<and> js_lt (Fin 0) (PricePerShare b)
          else isFinite (EV b) \<and> js_lt (Fin 0) (EV b)
             \<and> Equity b = js_sub (EV b) (netDebtYen i) \<and> js_lt (Fin 0) (Equity b)
             \<and> PricePerShare b = js_div (Equity b) (sharesOutstanding i)
             \<and> (\<forall>e s. Equity b = Fin e \<and> sharesOutstanding i = Fin s
                       \<and> 2 powi (- 1075) < e / s \<and> e / s < overflow_threshold
                  \<longrightarrow> isFinite (PricePerShare b) \<and> js_lt (Fin 0) (PricePerShare b))))
   \<and> (fst (validateInputs rt i)
    \<longrightarrow> (\<forall>p \<in> set (map PricePerShare (filter used (bridges (computeValuation rt i)))).
           p \<noteq> NaN \<and> js_le (Fin 0) p))"
proof -
  have main: "PricePerShare b \<noteq> NaN \<and> js_le (Fin 0) (PricePerShare b)
      \<and> (if method_id b = P_E
          then isFinite (PricePerShare b) \<and> js_lt (Fin 0) (PricePerShare b)
          else isFinite (EV b) \<and> js_lt (Fin 0) (EV b)
             \<and> Equity b = js_sub (EV b) (netDebtYen i) \<and> js_lt (Fin 0) (Equity b)
             \<and> PricePerShare b = js_div (Equity b) (sharesOutstanding i)
             \<and> (\<forall>e s. Equity b = Fin e \<and> sharesOutstanding i = Fin s
                       \<and> 2 powi (- 1075) < e / s \<and> e / s < overflow_threshold
                  \<longrightarrow> isFinite (PricePerShare b) \<and> js_lt (Fin 0) (PricePerShare b)))"
    if v: "fst (validateInputs rt i)" and b: "b \<in> set (bridges (computeValuation rt i))"
      and u: "used b" for b
  proof -
    from valid_shares[OF v] obtain s where s: "sharesOutstanding i = Fin s" "0 < s" by blast
    from valid_netDebt[OF v] obtain n where n: "netDebtYen i = Fin n" by blast
    from b have "b \<in> set (fst (buildBridges rt i))" by (simp add: bridges_computeValuation[OF v])
    note row = addBridge_used_row[OF n s used_bridge_origin[OF this u] u]
    show ?thesis
    proof (cases "method_id b = P_E")
      case True
      with row show ?thesis by (auto simp: js_le_def)
    next
      case False
      with row obtain x where x: "0 < x" "EV b = Fin x" "Equity b = js_sub (Fin x) (Fin n)"
          "js_lt (Fin 0) (Equity b)" "PricePerShare b = js_div (Equity b) (Fin s)"
        by auto
      from js_div_nonneg[OF x(4) s(2)] x(5)
      have "PricePerShare b \<noteq> NaN" "js_le (Fin 0) (PricePerShare b)" by simp_all
      moreover have "isFinite (PricePerShare b) \<and> js_lt (Fin 0) (PricePerShare b)"
        if "Equity b = Fin e" "2 powi (- 1075) < e / s" "e / s < overflow_threshold" for e
        using js_div_pos[OF that(2,3) s(2)] x(5) that(1) by simp
      ultimately show ?thesis using False x s n by auto
    qed
  qed
  show ?thesis
  proof (intro conjI impI ballI)
    fix p
    assume v: "fst (validateInputs rt i)"
      and "p \<in> set (map PricePerShare (filter used (bridges (computeValuation rt i))))"
    then obtain b' where "b' \<in> set (bridges (computeValuation rt i))" "used b'"
        "p = PricePerShare b'" by auto
    with main[OF v this(1,2)] show "p \<noteq> NaN" "js_le (Fin 0) p" by simp_all
  qed (use main in blast)+
qed


theorem C10_used_prices_witness:
  "fst (validateInputs stub_runtime standardInputs)
   \<and> \<lparr>method_id = EV_Sales, EV = Fin 5062000000, Equity = Fin 1272000000,
       PricePerShare = Fin 1272, used = True, skipReason = None\<rparr>
       \<in> set (bridges (computeValuation stub_runtime standardInputs))
   \<and> js_le (Fin 0) (Fin 1272)
   \<and> Fin 1272000000 = js_sub (Fin 5062000000) (netDebtYen standardInputs)
   \<and> Fin 1272 = js_div (Fin 1272000000) (sharesOutstanding standardInputs)
   \<and> 2 powi (- 1075) < (1272000000 / 1000000 :: real)
   \<and> (1272000000 / 1000000 :: real) < overflow_threshold
   \<and> js_lt (Fin 0) (Fin 1272)
   \<and> map PricePerShare (filter used (bridges (computeValuation stub_runtime standardInputs)))
       = [Fin 1272, Fin 1070, Fin 1234]"
proof -
  have b: "bridges (computeValuation stub_runtime standardInputs)
      = fst (buildBridges stub_runtime standardInputs)"
    by (simp add: bridges_computeValuation standardInputs_valid)
  have t: "(1272::real) < overflow_threshold" by (simp add: overflow_threshold_def)
  from C10_used_prices[of stub_runtime standardInputs
      "\<lparr>method_id = EV_Sales, EV = Fin 5062000000, Equity = Fin 1272000000,
        PricePerShare = Fin 1272, used = True, skipReason = None\<rparr>"]
    standardInputs_valid[of stub_runtime] t
  show ?thesis
    unfolding b standardInputs_bridges
    by (simp add: standardInputs_def js_le_def js_sub_def rnd_int)
qed

text \<open>
  As stated, C10 fails where the arithmetic overflows: with an EV of \<open>2 ^ 1023\<close>, a
  net cash position of \<open>2 ^ 1023\<close> and one share, validation passes and the EV/Sales
  bridge is used with an infinite equity and an infinite price.
\<close>

theorem C10_counterexample:
  "wellformed overflowInputs
   \<and> fst (validateInputs stub_runtime overflowInputs)
   \<and> \<lparr>method_id = EV_Sales, EV = Fin (2 ^ 1023), Equity = PInf, PricePerShare = PInf,
       used = True, skipReason = None\<rparr>
       \<in> set (bridges (computeValuation stub_runtime overflowInputs))
   \<and> \<not> isFinite PInf
   \<and> map PricePerShare (filter used (bridges (computeValuation stub_runtime overflowInputs)))
       = [PInf]"
  by (simp add: overflowInputs_valid bridges_computeValuation overflowInputs_bridges
      ebitdaSkipped_def overflowInputs_wellformed)

end
